theory Spec2Isabelle
  imports Main "HOL-Library.Multiset" "HOL-Library.Sublist" "HOL-Library.Product_Lexorder"
begin

section \<open>Data model (types.ts)\<close>

text \<open>
  \<^verbatim>\<open>MonacoMarkerData\<close>: line and column numbers and the severity are JavaScript numbers
  that hold integers; they are modelled as \<open>int\<close>. The optional fields \<^verbatim>\<open>source\<close> and
  \<^verbatim>\<open>code\<close> are options; \<^verbatim>\<open>code\<close> is \<^verbatim>\<open>string | number\<close>.
\<close>

datatype markerCode = CodeString string | CodeNumber int

record marker =
  startLineNumber :: int
  startColumn :: int
  endLineNumber :: int
  endColumn :: int
  message :: string
  severity :: int
  source :: "string option"
  code :: "markerCode option"

datatype followMode = AllLines | ActiveLine

text \<open>
  \<^verbatim>\<open>ErrorLensConfig\<close> (all options required). The \<^verbatim>\<open>colors\<close> option only feeds the
  generated style sheet and is left out.
\<close>

record config =
  enableInlineMessages :: bool
  enableLineHighlights :: bool
  enableGutterIcons :: bool
  messageTemplate :: string
  followCursor :: followMode
  maxMessageLength :: int
  maxMarkersPerLine :: int
  severityFilter :: "int list"
  updateDelay :: int
  enabled :: bool

definition DEFAULT_OPTIONS :: config where
  "DEFAULT_OPTIONS =
     \<lparr> enableInlineMessages = True, enableLineHighlights = True, enableGutterIcons = True,
       messageTemplate = ''{message}'', followCursor = AllLines, maxMessageLength = 200,
       maxMarkersPerLine = 3, severityFilter = [8, 4, 2, 1], updateDelay = 100,
       enabled = True \<rparr>"

definition CSS_MESSAGE :: string where "CSS_MESSAGE = ''monaco-error-lens-message''"
definition CSS_LINE :: string where "CSS_LINE = ''monaco-error-lens-line''"
definition CSS_GUTTER :: string where "CSS_GUTTER = ''monaco-error-lens-gutter''"

section \<open>Utilities (utils.ts)\<close>

definition getSeverityClass :: "int \<Rightarrow> string" where
  "getSeverityClass sev =
     (if sev = 8 then ''error''
      else if sev = 4 then ''warning''
      else if sev = 2 then ''info''
      else if sev = 1 then ''hint''
      else ''unknown'')"

subsection \<open>String.prototype.replace with a string pattern\<close>

text \<open>
  \<^verbatim>\<open>s.replace(pattern, replacement)\<close> with a string pattern replaces the first occurrence
  of the pattern only, and expands the dollar patterns of the replacement text:
  \<^verbatim>\<open>$$\<close> is a dollar sign, \<^verbatim>\<open>$&\<close> the matched text, \<^verbatim>\<open>$`\<close> the text before the match and
  \<^verbatim>\<open>$'\<close> the text after it. A string pattern has no capture groups, so every other
  dollar sequence stays as it is.
\<close>

fun getSubstitution :: "string \<Rightarrow> string \<Rightarrow> string \<Rightarrow> string \<Rightarrow> string" where
  "getSubstitution matched preceding following [] = []"
| "getSubstitution matched preceding following [c] = [c]"
| "getSubstitution matched preceding following (c # d # r) =
     (if c = CHR ''$'' then
        (if d = CHR ''$'' then CHR ''$'' # getSubstitution matched preceding following r
         else if d = CHR ''&'' then matched @ getSubstitution matched preceding following r
         else if d = CHR 0x60 then preceding @ getSubstitution matched preceding following r
         else if d = CHR 0x27 then following @ getSubstitution matched preceding following r
         else c # getSubstitution matched preceding following (d # r))
      else c # getSubstitution matched preceding following (d # r))"

text \<open>The text before and after the first occurrence of the pattern, if there is one.\<close>

fun splitAtFirst :: "string \<Rightarrow> string \<Rightarrow> (string \<times> string) option" where
  "splitAtFirst pat [] = (if pat = [] then Some ([], []) else None)"
| "splitAtFirst pat (c # s) =
     (if prefix pat (c # s) then Some ([], drop (length pat) (c # s))
      else map_option (\<lambda>(b, a). (c # b, a)) (splitAtFirst pat s))"

definition replace :: "string \<Rightarrow> string \<Rightarrow> string \<Rightarrow> string" where
  "replace s pat replacement =
     (case splitAtFirst pat s of
        None \<Rightarrow> s
      | Some (preceding, following) \<Rightarrow>
          preceding @ getSubstitution pat preceding following replacement @ following)"

subsection \<open>String(number) for integers\<close>

text \<open>
  The decimal digits of an integer, which is what \<^verbatim>\<open>String\<close> prints for an integer of
  magnitude below \<open>10\<^sup>2\<^sup>1\<close>; from there on JavaScript prints an exponent, which is
  not represented.
\<close>

fun digitsOf :: "nat \<Rightarrow> string" where
  "digitsOf n =
     (if n < 10 then [char_of (48 + n)]
      else digitsOf (n div 10) @ [char_of (48 + n mod 10)])"

definition String_of :: "markerCode \<Rightarrow> string" where
  "String_of c =
     (case c of
        CodeString s \<Rightarrow> s
      | CodeNumber n \<Rightarrow> (if n < 0 then CHR ''-'' # digitsOf (nat (- n)) else digitsOf (nat n)))"

text \<open>JavaScript truthiness of \<^verbatim>\<open>marker.code\<close>: absent, the empty string and 0 are falsy.\<close>

definition codeTruthy :: "markerCode option \<Rightarrow> bool" where
  "codeTruthy c =
     (case c of
        None \<Rightarrow> False
      | Some (CodeString s) \<Rightarrow> s \<noteq> []
      | Some (CodeNumber n) \<Rightarrow> n \<noteq> 0)"

subsection \<open>formatMessage\<close>

text \<open>
  The template after the three token substitutions, before truncation. \<^verbatim>\<open>message\<close> is
  a required string of the marker, so the fallback of \<^verbatim>\<open>marker.message ?? ''\<close> is never
  taken; an absent \<^verbatim>\<open>source\<close> and a falsy \<^verbatim>\<open>code\<close> give the empty string.
\<close>

definition substituteTokens :: "marker \<Rightarrow> string \<Rightarrow> string" where
  "substituteTokens marker template =
     replace
       (replace
          (replace template ''{message}'' (message marker))
          ''{source}'' (case source marker of None \<Rightarrow> [] | Some s \<Rightarrow> s))
       ''{code}'' (if codeTruthy (code marker) then String_of (the (code marker)) else [])"

text \<open>
  \<^verbatim>\<open>maxLength\<close> is an optional number: \<open>None\<close> when the argument is omitted. The test
  \<^verbatim>\<open>maxLength && formatted.length > maxLength\<close> is false for 0. \<^verbatim>\<open>substring(0, n)\<close>
  treats a negative \<open>n\<close> as 0, which is what \<open>nat\<close> does.
\<close>

definition formatMessage :: "marker \<Rightarrow> string \<Rightarrow> int option \<Rightarrow> string" where
  "formatMessage marker template maxLength =
     (let formatted = substituteTokens marker template
      in case maxLength of
           None \<Rightarrow> formatted
         | Some n \<Rightarrow>
             (if n \<noteq> 0 \<and> int (length formatted) > n
              then take (nat (n - 3)) formatted @ ''...''
              else formatted))"

subsection \<open>Array.prototype.sort, sortMarkers, groupMarkersByLine\<close>

text \<open>
  \<^verbatim>\<open>Array.prototype.sort\<close> is a stable sort (ECMAScript 2019). For a comparator that is
  a consistent ordering the sorted array is determined by stability alone, whatever the
  engine's algorithm; the model computes it by insertion from the right, where an element
  is placed before the first element it does not exceed.
\<close>

fun insertSorted :: "('a \<Rightarrow> 'a \<Rightarrow> int) \<Rightarrow> 'a \<Rightarrow> 'a list \<Rightarrow> 'a list" where
  "insertSorted cmp x [] = [x]"
| "insertSorted cmp x (y # ys) =
     (if cmp x y \<le> 0 then x # y # ys else y # insertSorted cmp x ys)"

definition arraySort :: "('a \<Rightarrow> 'a \<Rightarrow> int) \<Rightarrow> 'a list \<Rightarrow> 'a list" where
  "arraySort cmp xs = foldr (insertSorted cmp) xs []"

definition compareMarkers :: "marker \<Rightarrow> marker \<Rightarrow> int" where
  "compareMarkers a b =
     (if startLineNumber a \<noteq> startLineNumber b
      then startLineNumber a - startLineNumber b
      else severity b - severity a)"

definition sortMarkers :: "marker list \<Rightarrow> marker list" where
  "sortMarkers markers = arraySort compareMarkers markers"

text \<open>
  A \<^verbatim>\<open>Map<number, MonacoMarkerData[]>\<close> iterates in insertion order: it is an association
  list with distinct keys. \<open>mapPush\<close> is one round of the loop of groupMarkersByLine:
  a new key is appended with an empty array, then the marker is pushed onto the key's array.
\<close>

fun mapPush :: "int \<Rightarrow> marker \<Rightarrow> (int \<times> marker list) list \<Rightarrow> (int \<times> marker list) list" where
  "mapPush line m [] = [(line, [m])]"
| "mapPush line m ((k, v) # rest) =
     (if k = line then (k, v @ [m]) # rest else (k, v) # mapPush line m rest)"

definition groupMarkersByLine :: "marker list \<Rightarrow> (int \<times> marker list) list" where
  "groupMarkersByLine markers =
     foldl (\<lambda>grouped marker. mapPush (startLineNumber marker) marker grouped) [] markers"

section \<open>The filtering pass (MonacoErrorLens.filterMarkers)\<close>

text \<open>
  \<open>position\<close> is \<^verbatim>\<open>this.editor.getPosition()?.lineNumber\<close>: \<open>None\<close> when the editor has
  no cursor position. \<^verbatim>\<open>if (currentLine)\<close> is also false for line number 0.
\<close>

definition filterMarkers :: "config \<Rightarrow> int option \<Rightarrow> marker list \<Rightarrow> marker list" where
  "filterMarkers cfg position markers =
     (let filtered = filter (\<lambda>marker. severity marker \<in> set (severityFilter cfg)) markers;
          filtered = sortMarkers filtered;
          filtered =
            (if followCursor cfg = ActiveLine then
               (case position of
                  None \<Rightarrow> filtered
                | Some currentLine \<Rightarrow>
                    (if currentLine \<noteq> 0
                     then filter (\<lambda>marker. startLineNumber marker = currentLine) filtered
                     else filtered))
             else filtered)
      in if maxMarkersPerLine cfg > 0
         then concat (map (\<lambda>(line, lineMarkers). take (nat (maxMarkersPerLine cfg)) lineMarkers)
                          (groupMarkersByLine filtered))
         else filtered)"

section \<open>Example inputs\<close>

definition mkMarker :: "int \<Rightarrow> int \<Rightarrow> string \<Rightarrow> marker" where
  "mkMarker line sev msg =
     \<lparr> startLineNumber = line, startColumn = 1, endLineNumber = line, endColumn = 5,
       message = msg, severity = sev, source = None, code = None \<rparr>"

section \<open>Sort keys\<close>

text \<open>
  The comparator of sortMarkers orders markers as the pair (line, negated severity) in
  the lexicographic order; the comparator of the decoration manager's per-line sort
  orders them by negated severity.
\<close>

definition markerKey :: "marker \<Rightarrow> int \<times> int" where
  "markerKey m = (startLineNumber m, - severity m)"

section \<open>The steps of the filtering pass\<close>

abbreviation onLine :: "int \<Rightarrow> marker \<Rightarrow> bool" where
  "onLine l \<equiv> (\<lambda>m. startLineNumber m = l)"

text \<open>The keys of a Map in insertion order: each value at the place of its first occurrence.\<close>

definition firstOccurrences :: "'a list \<Rightarrow> 'a list" where
  "firstOccurrences xs = rev (remdups (rev xs))"

text \<open>
  filterMarkers in two pieces: \<open>beforeCap\<close> is the value of \<^verbatim>\<open>filtered\<close> when the
  per-line limit is reached (after the severity filter, the sort and the cursor filter),
  and \<open>capLines\<close> is the body of \<^verbatim>\<open>if (this.config.maxMarkersPerLine > 0)\<close>. Lemma
  \<open>filterMarkers_beforeCap\<close> puts them together again.
\<close>

definition beforeCap :: "config \<Rightarrow> int option \<Rightarrow> marker list \<Rightarrow> marker list" where
  "beforeCap cfg position markers =
     (let sorted = sortMarkers (filter (\<lambda>marker. severity marker \<in> set (severityFilter cfg)) markers)
      in if followCursor cfg = ActiveLine then
           (case position of
              None \<Rightarrow> sorted
            | Some currentLine \<Rightarrow>
                (if currentLine \<noteq> 0 then filter (onLine currentLine) sorted else sorted))
         else sorted)"

definition capLines :: "nat \<Rightarrow> marker list \<Rightarrow> marker list" where
  "capLines n ms = concat (map (\<lambda>(line, lineMarkers). take n lineMarkers) (groupMarkersByLine ms))"

section \<open>Counting token occurrences\<close>

text \<open>
  \<open>startingIn tok u rest\<close> counts the positions of \<open>u\<close> at which \<open>tok\<close> occurs in
  \<open>u @ rest\<close>; \<open>occurrences tok s\<close> counts the occurrences of \<open>tok\<close> in \<open>s\<close>.
\<close>

fun startingIn :: "string \<Rightarrow> string \<Rightarrow> string \<Rightarrow> nat" where
  "startingIn tok [] rest = 0"
| "startingIn tok (c # u) rest =
     (if prefix tok (c # u @ rest) then 1 else 0) + startingIn tok u rest"



section \<open>Decoration construction (decorations.ts)\<close>

text \<open>
  \<^verbatim>\<open>MonacoRange\<close>, \<^verbatim>\<open>MonacoDecorationOptions\<close> and \<^verbatim>\<open>MonacoDecoration\<close>. An optional
  property that is not set is \<open>None\<close>. The field names of the range carry a prefix since
  the marker record has the same names.
\<close>

record monacoRange =
  rangeStartLineNumber :: int
  rangeStartColumn :: int
  rangeEndLineNumber :: int
  rangeEndColumn :: int

record afterOptions =
  content :: string
  inlineClassName :: string

record decorationOptions =
  isWholeLine :: "bool option"
  className :: "string option"
  glyphMarginClassName :: "string option"
  after :: "afterOptions option"
  hoverMessage :: "string option"
  stickiness :: "int option"

record decoration =
  decorationRange :: monacoRange
  options :: decorationOptions

definition getSeverityLabel :: "int \<Rightarrow> string" where
  "getSeverityLabel sev =
     (if sev = 8 then ''Error''
      else if sev = 4 then ''Warning''
      else if sev = 2 then ''Info''
      else if sev = 1 then ''Hint''
      else ''Unknown'')"

text \<open>\<^verbatim>\<open>Array.prototype.join\<close>.\<close>

fun join :: "string \<Rightarrow> string list \<Rightarrow> string" where
  "join sep [] = []"
| "join sep [x] = x"
| "join sep (x # y # ys) = x @ sep @ join sep (y # ys)"

text \<open>
  \<open>hoverLine\<close> is the template literal that both branches of createHoverMessage build
  for a marker; a source that is absent or empty adds nothing.
\<close>

definition hoverLine :: "marker \<Rightarrow> string" where
  "hoverLine marker =
     ''**'' @ getSeverityLabel (severity marker) @ ''**''
       @ (case source marker of
            None \<Rightarrow> []
          | Some s \<Rightarrow> (if s \<noteq> [] then '' ['' @ s @ '']'' else []))
       @ '': '' @ message marker"

definition createHoverMessage :: "marker list \<Rightarrow> string" where
  "createHoverMessage markers =
     (case markers of
        [marker] \<Rightarrow> hoverLine marker
      | _ \<Rightarrow> join [CHR 0x0A, CHR 0x0A] (map hoverLine markers))"

text \<open>
  The decoration manager's own groupMarkersByLine: the groups of the utility function,
  each then sorted in place by \<^verbatim>\<open>(a, b) => b.severity - a.severity\<close>.
\<close>

definition compareSeverity :: "marker \<Rightarrow> marker \<Rightarrow> int" where
  "compareSeverity a b = severity b - severity a"

definition groupMarkersByLineSorted :: "marker list \<Rightarrow> (int \<times> marker list) list" where
  "groupMarkersByLineSorted markers =
     map (\<lambda>(line, lineMarkers). (line, arraySort compareSeverity lineMarkers))
         (groupMarkersByLine markers)"

text \<open>
  createLineDecoration. \<open>rangeCtor\<close> says whether
  \<^verbatim>\<open>typeof window !== 'undefined' && window.monaco?.Range\<close> holds: the range is built with
  that constructor, and without it the function returns null.
\<close>

definition createLineDecoration ::
  "bool \<Rightarrow> config \<Rightarrow> int \<Rightarrow> marker list \<Rightarrow> decoration option" where
  "createLineDecoration rangeCtor cfg lineNumber markers =
     (case markers of
        [] \<Rightarrow> None
      | primaryMarker # _ \<Rightarrow>
          (let severityClass = getSeverityClass (severity primaryMarker);
               opts = \<lparr> isWholeLine = None, className = None, glyphMarginClassName = None,
                        after = None, hoverMessage = None, stickiness = Some 1 \<rparr>;
               opts = (if enableLineHighlights cfg
                       then opts\<lparr> isWholeLine := Some True,
                                  className := Some (CSS_LINE @ '' '' @ CSS_LINE @ ''-'' @ severityClass) \<rparr>
                       else opts);
               opts = (if enableInlineMessages cfg
                       then opts\<lparr> after := Some
                              \<lparr> content = formatMessage primaryMarker (messageTemplate cfg)
                                            (Some (maxMessageLength cfg)),
                                inlineClassName =
                                  CSS_MESSAGE @ '' '' @ CSS_MESSAGE @ ''-'' @ severityClass \<rparr> \<rparr>
                       else opts);
               opts = (if enableGutterIcons cfg
                       then opts\<lparr> glyphMarginClassName :=
                              Some (CSS_GUTTER @ '' '' @ CSS_GUTTER @ ''-'' @ severityClass) \<rparr>
                       else opts);
               opts = opts\<lparr> hoverMessage := Some (createHoverMessage markers) \<rparr>
           in if rangeCtor
              then Some \<lparr> decorationRange =
                            \<lparr> rangeStartLineNumber = lineNumber, rangeStartColumn = 1,
                              rangeEndLineNumber = lineNumber, rangeEndColumn = 1 \<rparr>,
                          options = opts \<rparr>
              else None))"

text \<open>
  createDecorations: the loop skips a group with no first marker and a line for which
  createLineDecoration returns null.
\<close>

definition createDecorations :: "bool \<Rightarrow> config \<Rightarrow> marker list \<Rightarrow> decoration list" where
  "createDecorations rangeCtor cfg markers =
     List.map_filter
       (\<lambda>(lineNumber, lineMarkers).
          (case lineMarkers of
             [] \<Rightarrow> None
           | _ \<Rightarrow> createLineDecoration rangeCtor cfg lineNumber lineMarkers))
       (groupMarkersByLineSorted markers)"




section \<open>The host editor and the orchestrator state (monaco-error-lens.ts)\<close>

text \<open>
  A JavaScript exception is a value: a method returns \<open>Inr\<close> of the state it leaves, or
  \<open>Inl\<close> of the exception together with the state at the throw.
\<close>

datatype error = HostError string | TypeError string

type_synonym 's outcome = "(error \<times> 's) + 's"

definition stateOf :: "'s outcome \<Rightarrow> 's" where
  "stateOf r = (case r of Inl (e, s) \<Rightarrow> s | Inr s \<Rightarrow> s)"

definition throws :: "'s outcome \<Rightarrow> bool" where
  "throws r = (case r of Inl _ \<Rightarrow> True | Inr _ \<Rightarrow> False)"

text \<open>
  The host: the editor and the monaco module passed to the constructor, and the globals
  the code reads. Calls into the host that produce a value may throw.
  \<^item> \<open>getModel\<close>: \<^verbatim>\<open>editor.getModel()\<close>, null or a model, given by its uri;
  \<^item> \<open>getPosition\<close>: \<^verbatim>\<open>editor.getPosition()?.lineNumber\<close>;
  \<^item> \<open>deltaDecorations\<close>: \<^verbatim>\<open>editor.deltaDecorations(old, new)\<close>, the new handles;
  \<^item> \<open>getModelMarkers\<close>: \<^verbatim>\<open>monaco.editor.getModelMarkers\<close>, \<open>None\<close> when it is not a
    function; its result may be null or undefined;
  \<^item> \<open>hasOnDidChangeMarkers\<close>: \<^verbatim>\<open>typeof monaco.editor.onDidChangeMarkers === 'function'\<close>;
  \<^item> \<open>hasRangeCtor\<close>: \<^verbatim>\<open>window.monaco.Range\<close> exists;
  \<^item> \<open>hasDocument\<close>: \<^verbatim>\<open>typeof document !== 'undefined'\<close>.
  Registering and disposing listeners is taken not to throw.
\<close>

record host =
  getModel :: "error + string option"
  getPosition :: "int option"
  deltaDecorations :: "string list \<Rightarrow> decoration list \<Rightarrow> error + string list"
  getModelMarkers :: "(string \<Rightarrow> error + marker list option) option"
  hasOnDidChangeMarkers :: bool
  hasRangeCtor :: bool
  hasDocument :: bool

text \<open>\<^verbatim>\<open>ErrorLensOptions\<close>: every option may be absent.\<close>

record errorLensOptions =
  optEnableInlineMessages :: "bool option"
  optEnableLineHighlights :: "bool option"
  optEnableGutterIcons :: "bool option"
  optMessageTemplate :: "string option"
  optFollowCursor :: "followMode option"
  optMaxMessageLength :: "int option"
  optMaxMarkersPerLine :: "int option"
  optSeverityFilter :: "int list option"
  optUpdateDelay :: "int option"
  optEnabled :: "bool option"

definition noOptions :: errorLensOptions where
  "noOptions =
     \<lparr> optEnableInlineMessages = None, optEnableLineHighlights = None,
       optEnableGutterIcons = None, optMessageTemplate = None, optFollowCursor = None,
       optMaxMessageLength = None, optMaxMarkersPerLine = None, optSeverityFilter = None,
       optUpdateDelay = None, optEnabled = None \<rparr>"

text \<open>
  mergeOptions: an option the user gives replaces the default, an absent one keeps it.
  An option is absent when its key is missing; a key that is present with the value
  \<^verbatim>\<open>undefined\<close>, which the object spread would copy over the default, is not
  represented.
\<close>

definition orElse :: "'a option \<Rightarrow> 'a \<Rightarrow> 'a" where
  "orElse v d = (case v of None \<Rightarrow> d | Some x \<Rightarrow> x)"

definition mergeOptions :: "config \<Rightarrow> errorLensOptions \<Rightarrow> config" where
  "mergeOptions defaultOptions userOptions =
     \<lparr> enableInlineMessages = orElse (optEnableInlineMessages userOptions) (enableInlineMessages defaultOptions),
       enableLineHighlights = orElse (optEnableLineHighlights userOptions) (enableLineHighlights defaultOptions),
       enableGutterIcons = orElse (optEnableGutterIcons userOptions) (enableGutterIcons defaultOptions),
       messageTemplate = orElse (optMessageTemplate userOptions) (messageTemplate defaultOptions),
       followCursor = orElse (optFollowCursor userOptions) (followCursor defaultOptions),
       maxMessageLength = orElse (optMaxMessageLength userOptions) (maxMessageLength defaultOptions),
       maxMarkersPerLine = orElse (optMaxMarkersPerLine userOptions) (maxMarkersPerLine defaultOptions),
       severityFilter = orElse (optSeverityFilter userOptions) (severityFilter defaultOptions),
       updateDelay = orElse (optUpdateDelay userOptions) (updateDelay defaultOptions),
       enabled = orElse (optEnabled userOptions) (enabled defaultOptions) \<rparr>"

datatype listener = MarkerListener | CursorListener | ModelListener

text \<open>The events passed to \<^verbatim>\<open>eventEmitter.emit\<close>, without their timestamps.\<close>

datatype event =
    DecorationsUpdated nat nat
  | ErrorEvent error string
  | StatusChanged bool
  | ConfigUpdated config

text \<open>The variables a closure of debounce holds: its delay and its pending timer.\<close>

record debounceState =
  wait :: int
  timeout :: "nat option"

text \<open>
  The state of one MonacoErrorLens instance with its DecorationManager, and the part of
  the world its methods change:
  \<^item> \<open>config\<close>: \<^verbatim>\<open>this.config\<close>; the decoration manager holds the same object (the
    constructor passes it on, updateOptions passes the new one on, and enable and disable
    assign to its \<^verbatim>\<open>enabled\<close> in place), so one field stands for both;
  \<^item> \<open>disposables\<close>, \<open>isDisposed\<close>: the fields of these names;
  \<^item> \<open>updateDecorations\<close>, \<open>cancelUpdateDecorations\<close>: the fields of these names. A
    field that holds a function holds a debounced function, given by its closure;
    \<open>None\<close> is \<^verbatim>\<open>undefined\<close>;
  \<^item> \<open>decorations\<close>, \<open>lastDecorationCount\<close>: the decoration manager's fields;
  \<^item> \<open>timers\<close>: the timers set with setTimeout that have neither fired nor been cleared,
    each with its delay; \<open>nextTimerId\<close>: the identifier setTimeout returns next;
  \<^item> \<open>emitted\<close>: the events emitted so far; \<open>submitted\<close>: the batches passed to
    \<^verbatim>\<open>deltaDecorations\<close> so far; \<open>stylesInjected\<close>: the style element exists.
\<close>

record lens =
  config :: config
  disposables :: "listener list"
  isDisposed :: bool
  updateDecorations :: "debounceState option"
  cancelUpdateDecorations :: "debounceState option"
  decorations :: "string list"
  lastDecorationCount :: nat
  timers :: "(nat \<times> int) list"
  nextTimerId :: nat
  emitted :: "event list"
  submitted :: "decoration list list"
  stylesInjected :: bool

definition emit :: "event \<Rightarrow> lens \<Rightarrow> lens" where
  "emit ev s = s\<lparr> emitted := emitted s @ [ev] \<rparr>"

subsection \<open>debounce\<close>

text \<open>
  debounce of utils.ts returns the debounced function: \<open>debounce w\<close> is that function,
  given by its fresh closure. \<open>debounced\<close> is a call of such a function: it clears the
  timer the closure holds, if any (\<^verbatim>\<open>clearTimeout\<close> removes a pending timer), and sets a
  new one with the closure's delay (\<^verbatim>\<open>setTimeout\<close> adds one under a fresh identifier).
\<close>

definition clearTimeout :: "nat \<Rightarrow> (nat \<times> int) list \<Rightarrow> (nat \<times> int) list" where
  "clearTimeout t ts = filter (\<lambda>(i, w). i \<noteq> t) ts"

definition debounce :: "int \<Rightarrow> debounceState" where
  "debounce w = \<lparr> wait = w, timeout = None \<rparr>"

definition debounced :: "debounceState \<Rightarrow> lens \<Rightarrow> debounceState \<times> lens" where
  "debounced d s =
     (let ts = (case timeout d of None \<Rightarrow> timers s | Some t \<Rightarrow> clearTimeout t (timers s));
          t' = nextTimerId s
      in (d\<lparr> timeout := Some t' \<rparr>,
          s\<lparr> timers := ts @ [(t', wait d)], nextTimerId := Suc t' \<rparr>))"

text \<open>
  The orchestrator takes its two functions from debounce by
  \<^verbatim>\<open>const { debouncedFn, cancel } = debounce(...)\<close>, which reads the properties
  \<^verbatim>\<open>debouncedFn\<close> and \<^verbatim>\<open>cancel\<close> of the value debounce returns. That value is the
  debounced function itself; it has no property of either name, so both reads give
  \<^verbatim>\<open>undefined\<close>, whatever the closure.
\<close>

definition propertyOf :: "debounceState \<Rightarrow> string \<Rightarrow> debounceState option" where
  "propertyOf f name = None"

text \<open>
  \<^verbatim>\<open>this.updateDecorations()\<close> and \<^verbatim>\<open>this.cancelUpdateDecorations()\<close>: a call of a field
  that is \<^verbatim>\<open>undefined\<close> throws a TypeError; a call of a field that holds a debounced
  function runs it.
\<close>

definition call_updateDecorations :: "lens \<Rightarrow> lens outcome" where
  "call_updateDecorations s =
     (case updateDecorations s of
        None \<Rightarrow> Inl (TypeError ''this.updateDecorations is not a function'', s)
      | Some d \<Rightarrow>
          (let (d', s') = debounced d s in Inr (s'\<lparr> updateDecorations := Some d' \<rparr>)))"

definition call_cancelUpdateDecorations :: "lens \<Rightarrow> lens outcome" where
  "call_cancelUpdateDecorations s =
     (case cancelUpdateDecorations s of
        None \<Rightarrow> Inl (TypeError ''this.cancelUpdateDecorations is not a function'', s)
      | Some d \<Rightarrow>
          (let (d', s') = debounced d s in Inr (s'\<lparr> cancelUpdateDecorations := Some d' \<rparr>)))"

subsection \<open>DecorationManager.updateDecorations and clearDecorations\<close>

definition DecorationManager_updateDecorations :: "host \<Rightarrow> marker list \<Rightarrow> lens \<Rightarrow> lens outcome" where
  "DecorationManager_updateDecorations h markers s =
     (let ds = createDecorations (hasRangeCtor h) (config s) markers;
          s1 = s\<lparr> submitted := submitted s @ [ds] \<rparr>
      in case deltaDecorations h (decorations s) ds of
           Inl e \<Rightarrow> Inl (e, s1)
         | Inr ids \<Rightarrow> Inr (s1\<lparr> decorations := ids, lastDecorationCount := length ds \<rparr>))"

definition clearDecorations :: "host \<Rightarrow> lens \<Rightarrow> lens outcome" where
  "clearDecorations h s =
     (let s1 = s\<lparr> submitted := submitted s @ [[]] \<rparr>
      in case deltaDecorations h (decorations s) [] of
           Inl e \<Rightarrow> Inl (e, s1)
         | Inr ids \<Rightarrow> Inr (s1\<lparr> decorations := ids, lastDecorationCount := 0 \<rparr>))"

subsection \<open>The private methods of MonacoErrorLens\<close>

text \<open>
  isMonacoInitialized: the two \<^verbatim>\<open>typeof\<close> tests, then \<^verbatim>\<open>this.editor.getModel()\<close>, which
  is only called when both tests pass.
\<close>

definition isMonacoInitialized :: "host \<Rightarrow> error + bool" where
  "isMonacoInitialized h =
     (if getModelMarkers h \<noteq> None \<and> hasOnDidChangeMarkers h
      then (case getModel h of Inl e \<Rightarrow> Inl e | Inr m \<Rightarrow> Inr (m \<noteq> None))
      else Inr False)"

definition injectStyles :: "host \<Rightarrow> lens \<Rightarrow> lens" where
  "injectStyles h s =
     (if \<not> hasDocument h then s
      else if stylesInjected s then s
      else s\<lparr> stylesInjected := True \<rparr>)"

definition setupEventListeners :: "host \<Rightarrow> lens \<Rightarrow> lens outcome" where
  "setupEventListeners h s =
     (case isMonacoInitialized h of
        Inl e \<Rightarrow> Inl (e, s)
      | Inr False \<Rightarrow> Inr s
      | Inr True \<Rightarrow>
          (let s1 = s\<lparr> disposables := disposables s @ [MarkerListener] \<rparr>;
               s2 = (if followCursor (config s1) = ActiveLine
                     then s1\<lparr> disposables := disposables s1 @ [CursorListener] \<rparr>
                     else s1)
           in Inr (s2\<lparr> disposables := disposables s2 @ [ModelListener] \<rparr>)))"

definition initialize :: "host \<Rightarrow> lens \<Rightarrow> lens outcome" where
  "initialize h s =
     (if \<not> enabled (config s) then Inr s
      else case setupEventListeners h (injectStyles h s) of
             Inl es \<Rightarrow> Inl es
           | Inr s1 \<Rightarrow>
               (case isMonacoInitialized h of
                  Inl e \<Rightarrow> Inl (e, s1)
                | Inr True \<Rightarrow> call_updateDecorations s1
                | Inr False \<Rightarrow> Inr s1))"

text \<open>
  updateDecorationsInternal. The first three tests stand before the \<^verbatim>\<open>try\<close>; an
  exception of the block is caught and reported as an error event.
\<close>

definition updateDecorationsBody :: "host \<Rightarrow> string \<Rightarrow> lens \<Rightarrow> lens outcome" where
  "updateDecorationsBody h uri s =
     (case getModelMarkers h of
        None \<Rightarrow> Inl (TypeError ''getModelMarkers is not a function'', s)
      | Some query \<Rightarrow>
          (case query uri of
             Inl e \<Rightarrow> Inl (e, s)
           | Inr markers \<Rightarrow>
               (let markersArray = (case markers of None \<Rightarrow> [] | Some ms \<Rightarrow> ms);
                    filteredMarkers = filterMarkers (config s) (getPosition h) markersArray
                in case DecorationManager_updateDecorations h filteredMarkers s of
                     Inl es \<Rightarrow> Inl es
                   | Inr s1 \<Rightarrow>
                       Inr (emit (DecorationsUpdated (lastDecorationCount s1)
                                    (length markersArray)) s1))))"

definition updateDecorationsInternal :: "host \<Rightarrow> lens \<Rightarrow> lens outcome" where
  "updateDecorationsInternal h s =
     (if isDisposed s \<or> \<not> enabled (config s) then Inr s
      else case getModel h of
             Inl e \<Rightarrow> Inl (e, s)
           | Inr None \<Rightarrow> Inr s
           | Inr (Some uri) \<Rightarrow>
               (case isMonacoInitialized h of
                  Inl e \<Rightarrow> Inl (e, s)
                | Inr False \<Rightarrow> Inr s
                | Inr True \<Rightarrow>
                    (case updateDecorationsBody h uri s of
                       Inl (e, s1) \<Rightarrow> Inr (emit (ErrorEvent e ''updateDecorationsInternal'') s1)
                     | Inr s1 \<Rightarrow> Inr s1)))"

subsection \<open>The public methods of MonacoErrorLens\<close>

text \<open>
  The constructor. When it throws there is no instance; the outcome still gives the
  state at the throw.
\<close>

definition constructor :: "host \<Rightarrow> errorLensOptions \<Rightarrow> lens outcome" where
  "constructor h opts =
     (let cfg = mergeOptions DEFAULT_OPTIONS opts;
          f = debounce (updateDelay cfg)
      in initialize h
           \<lparr> config = cfg, disposables = [], isDisposed = False,
             updateDecorations = propertyOf f ''debouncedFn'',
             cancelUpdateDecorations = propertyOf f ''cancel'', decorations = [],
             lastDecorationCount = 0, timers = [], nextTimerId = 1, emitted = [],
             submitted = [], stylesInjected = False \<rparr>)"

definition updateOptions :: "host \<Rightarrow> errorLensOptions \<Rightarrow> lens \<Rightarrow> lens outcome" where
  "updateOptions h newOptions s =
     (let oldEnabled = enabled (config s);
          s1 = s\<lparr> config := mergeOptions (config s) newOptions \<rparr>;
          r2 = (if optUpdateDelay newOptions \<noteq> None
                then (case call_cancelUpdateDecorations s1 of
                        Inl es \<Rightarrow> Inl es
                      | Inr s2 \<Rightarrow>
                          (let f = debounce (updateDelay (config s2))
                           in Inr (s2\<lparr> updateDecorations := propertyOf f ''debouncedFn'',
                                        cancelUpdateDecorations := propertyOf f ''cancel'' \<rparr>)))
                else Inr s1)
      in case r2 of
           Inl es \<Rightarrow> Inl es
         | Inr s2 \<Rightarrow>
             (case (case optEnabled newOptions of
                      Some newEnabled \<Rightarrow>
                        (if newEnabled \<and> \<not> oldEnabled then
                           (case initialize h s2 of
                              Inl es \<Rightarrow> Inl es
                            | Inr s3 \<Rightarrow> Inr (emit (StatusChanged True) s3))
                         else if \<not> newEnabled \<and> oldEnabled then
                           (case clearDecorations h s2 of
                              Inl es \<Rightarrow> Inl es
                            | Inr s3 \<Rightarrow> Inr (emit (StatusChanged False) s3))
                         else Inr s2)
                    | None \<Rightarrow> call_updateDecorations s2) of
                Inl es \<Rightarrow> Inl es
              | Inr s4 \<Rightarrow> Inr (emit (ConfigUpdated (config s4)) s4)))"

definition enable :: "host \<Rightarrow> lens \<Rightarrow> lens outcome" where
  "enable h s =
     (if \<not> enabled (config s)
      then initialize h (s\<lparr> config := (config s)\<lparr> enabled := True \<rparr> \<rparr>)
      else Inr s)"

definition disable :: "host \<Rightarrow> lens \<Rightarrow> lens outcome" where
  "disable h s =
     (if enabled (config s)
      then clearDecorations h (s\<lparr> config := (config s)\<lparr> enabled := False \<rparr> \<rparr>)
      else Inr s)"

definition toggle :: "host \<Rightarrow> lens \<Rightarrow> lens outcome" where
  "toggle h s = (if enabled (config s) then disable h s else enable h s)"

definition refresh :: "host \<Rightarrow> lens \<Rightarrow> lens outcome" where
  "refresh h s = updateDecorationsInternal h s"

definition isActive :: "lens \<Rightarrow> bool" where
  "isActive s = (\<not> isDisposed s \<and> enabled (config s))"

definition dispose :: "host \<Rightarrow> lens \<Rightarrow> lens outcome" where
  "dispose h s =
     (if isDisposed s then Inr s
      else case call_cancelUpdateDecorations (s\<lparr> isDisposed := True \<rparr>) of
             Inl es \<Rightarrow> Inl es
           | Inr s1 \<Rightarrow>
               (case clearDecorations h s1 of
                  Inl es \<Rightarrow> Inl es
                | Inr s2 \<Rightarrow> Inr (s2\<lparr> disposables := [] \<rparr>)))"

subsection \<open>Host events and runs\<close>

text \<open>
  The three listeners of setupEventListeners: \<open>onMarkersChanged\<close> (for a change that
  names the editor's model), \<open>onCursorPosition\<close> and \<open>onModelChanged\<close>.
\<close>

definition onMarkersChanged :: "host \<Rightarrow> lens \<Rightarrow> lens outcome" where
  "onMarkersChanged h s =
     (case getModel h of
        Inl e \<Rightarrow> Inl (e, s)
      | Inr None \<Rightarrow> Inr s
      | Inr (Some uri) \<Rightarrow> call_updateDecorations s)"

definition onCursorPosition :: "host \<Rightarrow> lens \<Rightarrow> lens outcome" where
  "onCursorPosition h s = call_updateDecorations s"

definition onModelChanged :: "host \<Rightarrow> lens \<Rightarrow> lens outcome" where
  "onModelChanged h s =
     (case clearDecorations h s of
        Inl es \<Rightarrow> Inl es
      | Inr s1 \<Rightarrow> call_updateDecorations s1)"

text \<open>
  What can happen to an instance: a call of a public method, or the host calling a
  listener that is registered. \<open>run\<close> lets a sequence of these happen; after an
  exception it goes on from the state at the throw.
\<close>

datatype call =
    Enable | Disable | Toggle | Refresh | UpdateOptions errorLensOptions | Dispose
  | MarkersChanged | CursorMoved | ModelChanged

definition step :: "host \<Rightarrow> call \<Rightarrow> lens \<Rightarrow> lens outcome" where
  "step h c s =
     (case c of
        Enable \<Rightarrow> enable h s
      | Disable \<Rightarrow> disable h s
      | Toggle \<Rightarrow> toggle h s
      | Refresh \<Rightarrow> refresh h s
      | UpdateOptions newOptions \<Rightarrow> updateOptions h newOptions s
      | Dispose \<Rightarrow> dispose h s
      | MarkersChanged \<Rightarrow> (if MarkerListener \<in> set (disposables s) then onMarkersChanged h s else Inr s)
      | CursorMoved \<Rightarrow> (if CursorListener \<in> set (disposables s) then onCursorPosition h s else Inr s)
      | ModelChanged \<Rightarrow> (if ModelListener \<in> set (disposables s) then onModelChanged h s else Inr s))"

fun run :: "host \<Rightarrow> call list \<Rightarrow> lens \<Rightarrow> lens" where
  "run h [] s = s"
| "run h (c # cs) s = run h cs (stateOf (step h c s))"

text \<open>
  \<open>unbound\<close>: neither field holds a function. \<open>thrown\<close>: the exception of an outcome.
\<close>

definition unbound :: "lens \<Rightarrow> bool" where
  "unbound s = (updateDecorations s = None \<and> cancelUpdateDecorations s = None)"

definition thrown :: "'s outcome \<Rightarrow> error option" where
  "thrown r = (case r of Inl (e, s) \<Rightarrow> Some e | Inr s \<Rightarrow> None)"

subsection \<open>Example hosts and states\<close>

text \<open>
  A host with one error marker on line 1, and the same host with a model that has been
  disposed, whose \<^verbatim>\<open>deltaDecorations\<close> throws. \<open>disabledLens\<close> is the instance the
  constructor builds on either with \<^verbatim>\<open>enabled: false\<close>, and \<open>exampleLens\<close> is that
  instance after a call of enable (lemma \<open>exampleLens_reached\<close>).
\<close>

definition exampleHost :: host where
  "exampleHost =
     \<lparr> getModel = Inr (Some ''file:///test.ts''), getPosition = Some 1,
       deltaDecorations = (\<lambda>old new. Inr (map (\<lambda>d. ''decoration'') new)),
       getModelMarkers = Some (\<lambda>uri. Inr (Some [mkMarker 1 8 ''A''])),
       hasOnDidChangeMarkers = True, hasRangeCtor = True, hasDocument = True \<rparr>"

definition disposedModelHost :: host where
  "disposedModelHost =
     exampleHost\<lparr> deltaDecorations := (\<lambda>old new. Inl (HostError ''Model is disposed!'')) \<rparr>"

definition disabledLens :: lens where
  "disabledLens =
     \<lparr> config = DEFAULT_OPTIONS\<lparr> enabled := False \<rparr>, disposables = [],
       isDisposed = False, updateDecorations = None, cancelUpdateDecorations = None,
       decorations = [], lastDecorationCount = 0, timers = [], nextTimerId = 1,
       emitted = [], submitted = [], stylesInjected = False \<rparr>"

definition exampleLens :: lens where
  "exampleLens =
     \<lparr> config = DEFAULT_OPTIONS, disposables = [MarkerListener, ModelListener],
       isDisposed = False, updateDecorations = None, cancelUpdateDecorations = None,
       decorations = [], lastDecorationCount = 0, timers = [], nextTimerId = 1,
       emitted = [], submitted = [], stylesInjected = True \<rparr>"

subsection \<open>The batches a recomputation submits\<close>

text \<open>
  \<open>newBatches s s'\<close>: the batches submitted to the host between the states \<open>s\<close> and
  \<open>s'\<close>. \<open>expectedBatches\<close>: what one recomputation submits, as a function of the
  host's answers, the configuration and the disposed flag.
\<close>

definition newBatches :: "lens \<Rightarrow> lens \<Rightarrow> decoration list list" where
  "newBatches s s' = drop (length (submitted s)) (submitted s')"

definition expectedBatches :: "host \<Rightarrow> config \<Rightarrow> bool \<Rightarrow> decoration list list" where
  "expectedBatches h cfg disposed =
     (if disposed \<or> \<not> enabled cfg then []
      else case getModel h of
             Inr (Some uri) \<Rightarrow>
               (case isMonacoInitialized h of
                  Inr True \<Rightarrow>
                    (case getModelMarkers h of
                       Some query \<Rightarrow>
                         (case query uri of
                            Inr markers \<Rightarrow>
                              [createDecorations (hasRangeCtor h) cfg
                                 (filterMarkers cfg (getPosition h)
                                    (case markers of None \<Rightarrow> [] | Some ms \<Rightarrow> ms))]
                          | Inl e \<Rightarrow> [])
                     | None \<Rightarrow> [])
                | _ \<Rightarrow> [])
           | _ \<Rightarrow> [])"

section \<open>The pipeline on a store of shared arrays\<close>

text \<open>
  JavaScript arrays and marker objects are shared by reference. To see what the pipeline
  writes, the filtering pass and the decoration manager's grouping are modelled once more
  on an explicit store: \<open>objects\<close> holds the marker objects, \<open>arrays\<close> the arrays,
  each a list of references to marker objects, and the arrays at addresses below
  \<open>nextArray\<close> are the allocated ones. No statement of the pipeline assigns to a field of
  a marker, so no operation below writes \<open>objects\<close>.
  \<^item> \<open>spreadArray\<close> is \<^verbatim>\<open>[...a]\<close>, \<open>filterArray\<close> is \<^verbatim>\<open>a.filter(p)\<close> and \<open>sliceArray\<close> is
    \<^verbatim>\<open>a.slice(0, n)\<close>: each allocates a new array;
  \<^item> \<open>sortArray\<close> is \<^verbatim>\<open>a.sort(cmp)\<close> and \<open>pushArray\<close> is \<^verbatim>\<open>a.push(...xs)\<close>: each
    writes the array \<open>a\<close> in place.
\<close>

record store =
  objects :: "nat \<Rightarrow> marker"
  arrays :: "nat \<Rightarrow> nat list"
  nextArray :: nat

definition allocArray :: "nat list \<Rightarrow> store \<Rightarrow> nat \<times> store" where
  "allocArray xs st =
     (nextArray st, st\<lparr> arrays := (arrays st)(nextArray st := xs), nextArray := Suc (nextArray st) \<rparr>)"

definition writeArray :: "nat \<Rightarrow> nat list \<Rightarrow> store \<Rightarrow> store" where
  "writeArray a xs st = st\<lparr> arrays := (arrays st)(a := xs) \<rparr>"

definition spreadArray :: "nat \<Rightarrow> store \<Rightarrow> nat \<times> store" where
  "spreadArray a st = allocArray (arrays st a) st"

definition filterArray :: "(marker \<Rightarrow> bool) \<Rightarrow> nat \<Rightarrow> store \<Rightarrow> nat \<times> store" where
  "filterArray p a st = allocArray (filter (\<lambda>r. p (objects st r)) (arrays st a)) st"

definition sortArray :: "(marker \<Rightarrow> marker \<Rightarrow> int) \<Rightarrow> nat \<Rightarrow> store \<Rightarrow> store" where
  "sortArray cmp a st =
     writeArray a (arraySort (\<lambda>x y. cmp (objects st x) (objects st y)) (arrays st a)) st"

definition sliceArray :: "nat \<Rightarrow> nat \<Rightarrow> store \<Rightarrow> nat \<times> store" where
  "sliceArray n a st = allocArray (take n (arrays st a)) st"

definition pushArray :: "nat \<Rightarrow> nat list \<Rightarrow> store \<Rightarrow> store" where
  "pushArray a xs st = writeArray a (arrays st a @ xs) st"

text \<open>
  groupMarkersByLine: the Map holds, for each line, the address of that line's array.
  \<open>groupPush\<close> is one round of its loop.
\<close>

definition groupPush :: "(int \<times> nat) list \<times> store \<Rightarrow> nat \<Rightarrow> (int \<times> nat) list \<times> store" where
  "groupPush gs r =
     (let (grouped, st) = gs; line = startLineNumber (objects st r)
      in case map_of grouped line of
           None \<Rightarrow>
             (let (b, st1) = allocArray [] st
              in (grouped @ [(line, b)], pushArray b [r] st1))
         | Some b \<Rightarrow> (grouped, pushArray b [r] st))"

definition groupMarkersByLine_store :: "nat \<Rightarrow> store \<Rightarrow> (int \<times> nat) list \<times> store" where
  "groupMarkersByLine_store a st = foldl groupPush ([], st) (arrays st a)"

text \<open>
  filterMarkers: \<open>pushLimited\<close> is one round of the loop over \<^verbatim>\<open>lineGroups.values()\<close>.
\<close>

definition pushLimited :: "nat \<Rightarrow> nat \<Rightarrow> store \<Rightarrow> int \<times> nat \<Rightarrow> store" where
  "pushLimited n filtered st entry =
     (let (limited, st1) = sliceArray n (snd entry) st
      in pushArray filtered (arrays st1 limited) st1)"

definition filterMarkers_store :: "config \<Rightarrow> int option \<Rightarrow> nat \<Rightarrow> store \<Rightarrow> nat \<times> store" where
  "filterMarkers_store cfg position markers st =
     (let (filtered, st) = spreadArray markers st;
          (filtered, st) = filterArray (\<lambda>marker. severity marker \<in> set (severityFilter cfg)) filtered st;
          st = sortArray compareMarkers filtered st;
          (filtered, st) =
            (if followCursor cfg = ActiveLine then
               (case position of
                  None \<Rightarrow> (filtered, st)
                | Some currentLine \<Rightarrow>
                    (if currentLine \<noteq> 0
                     then filterArray (\<lambda>marker. startLineNumber marker = currentLine) filtered st
                     else (filtered, st)))
             else (filtered, st))
      in if maxMarkersPerLine cfg > 0
         then (let (lineGroups, st) = groupMarkersByLine_store filtered st;
                   (filtered, st) = allocArray [] st
               in (filtered, foldl (pushLimited (nat (maxMarkersPerLine cfg)) filtered) st lineGroups))
         else (filtered, st))"

text \<open>
  The decoration manager's groupMarkersByLine sorts each group's array in place;
  \<open>pipeline_store\<close> is the filtering pass followed by that grouping, the two places of a
  recomputation that write arrays.
\<close>

definition groupMarkersByLineSorted_store :: "nat \<Rightarrow> store \<Rightarrow> (int \<times> nat) list \<times> store" where
  "groupMarkersByLineSorted_store a st =
     (let (grouped, st1) = groupMarkersByLine_store a st
      in (grouped, foldl (\<lambda>st entry. sortArray compareSeverity (snd entry) st) st1 grouped))"

definition pipeline_store :: "config \<Rightarrow> int option \<Rightarrow> nat \<Rightarrow> store \<Rightarrow> (int \<times> nat) list \<times> store" where
  "pipeline_store cfg position markers st =
     (let (filtered, st1) = filterMarkers_store cfg position markers st
      in groupMarkersByLineSorted_store filtered st1)"

text \<open>
  \<open>framed n st st'\<close>: from \<open>st\<close> to \<open>st'\<close> no marker object and no array below address
  \<open>n\<close> has changed. \<open>contents\<close> reads an array of the store as a list of markers;
  \<open>absGroups\<close> reads a Map of the store as the association list of the pure model, and
  \<open>groupInv\<close> says that its keys and its arrays are distinct and allocated.
\<close>

definition framed :: "nat \<Rightarrow> store \<Rightarrow> store \<Rightarrow> bool" where
  "framed n st st' =
     (objects st' = objects st \<and> nextArray st \<le> nextArray st' \<and>
      (\<forall>a. a < n \<longrightarrow> arrays st' a = arrays st a))"

definition contents :: "store \<Rightarrow> nat \<Rightarrow> marker list" where
  "contents st a = map (objects st) (arrays st a)"

definition absGroups :: "store \<Rightarrow> (int \<times> nat) list \<Rightarrow> (int \<times> marker list) list" where
  "absGroups st g = map (\<lambda>(l, b). (l, contents st b)) g"

definition groupInv :: "(int \<times> nat) list \<Rightarrow> store \<Rightarrow> bool" where
  "groupInv g st =
     (distinct (map fst g) \<and> distinct (map snd g) \<and> (\<forall>b \<in> snd ` set g. b < nextArray st))"

definition exampleStore :: store where
  "exampleStore =
     \<lparr> objects = (\<lambda>r. if r = 0 then mkMarker 2 4 ''w'' else mkMarker 1 8 ''e''),
       arrays = (\<lambda>a. if a = 0 then [0, 1] else []),
       nextArray = 1 \<rparr>"

section \<open>Sorting\<close>

lemma insertSorted_insort_key:
  fixes key :: "'a \<Rightarrow> 'k::linorder"
  assumes "\<And>a b. (cmp a b \<le> 0) = (key a \<le> key b)"
  shows "insertSorted cmp x ys = insort_key key x ys"
  by (induction ys) (simp_all add: assms)

lemma arraySort_sort_key:
  fixes key :: "'a \<Rightarrow> 'k::linorder"
  assumes "\<And>a b. (cmp a b \<le> 0) = (key a \<le> key b)"
  shows "arraySort cmp xs = sort_key key xs"
proof -
  have "insertSorted cmp = insort_key key"
    by (intro ext) (rule insertSorted_insort_key [OF assms])
  then show ?thesis by (simp add: arraySort_def sort_key_def)
qed

lemma compareMarkers_markerKey:
  "(compareMarkers a b \<le> 0) = (markerKey a \<le> markerKey b)"
  by (auto simp: compareMarkers_def markerKey_def less_eq_prod_def)

lemma sortMarkers_sort_key: "sortMarkers ms = sort_key markerKey ms"
  unfolding sortMarkers_def by (rule arraySort_sort_key) (rule compareMarkers_markerKey)

text \<open>
  C4. sortMarkers returns a permutation of its input; line numbers are non-decreasing
  along the result and, between markers of one line, severities are non-increasing;
  markers with the same line and severity keep their input order.
\<close>

theorem sortMarkers_sorted_stable_permutation:
  "mset (sortMarkers ms) = mset ms \<and>
   sorted_wrt (\<lambda>a b. startLineNumber a \<le> startLineNumber b \<and>
                 (startLineNumber a = startLineNumber b \<longrightarrow> severity b \<le> severity a))
              (sortMarkers ms) \<and>
   (\<forall>l s. filter (\<lambda>m. startLineNumber m = l \<and> severity m = s) (sortMarkers ms)
        = filter (\<lambda>m. startLineNumber m = l \<and> severity m = s) ms)"
proof (intro conjI allI)
  show "mset (sortMarkers ms) = mset ms"
    by (simp add: sortMarkers_sort_key)
next
  have "sorted (map markerKey (sort_key markerKey ms))" by simp
  then have "sorted_wrt (\<lambda>a b. markerKey a \<le> markerKey b) (sortMarkers ms)"
    by (simp add: sortMarkers_sort_key sorted_map)
  then show "sorted_wrt (\<lambda>a b. startLineNumber a \<le> startLineNumber b \<and>
                 (startLineNumber a = startLineNumber b \<longrightarrow> severity b \<le> severity a))
              (sortMarkers ms)"
    by (rule sorted_wrt_mono_rel [rotated]) (auto simp: markerKey_def less_eq_prod_def)
next
  fix l s
  have "filter (\<lambda>m. markerKey m = (l, - s)) (sort_key markerKey ms)
      = filter (\<lambda>m. markerKey m = (l, - s)) ms"
    by (rule sort_key_stable)
  moreover have "(\<lambda>m. markerKey m = (l, - s)) = (\<lambda>m. startLineNumber m = l \<and> severity m = s)"
    by (auto simp: markerKey_def)
  ultimately show "filter (\<lambda>m. startLineNumber m = l \<and> severity m = s) (sortMarkers ms)
        = filter (\<lambda>m. startLineNumber m = l \<and> severity m = s) ms"
    by (simp add: sortMarkers_sort_key)
qed

theorem sortMarkers_sorted_stable_permutation_witness:
  "map message (sortMarkers [mkMarker 2 4 ''a'', mkMarker 1 2 ''b'', mkMarker 1 8 ''c'',
                             mkMarker 2 4 ''d'', mkMarker 1 8 ''e''])
     = [''c'', ''e'', ''b'', ''a'', ''d''] \<and>
   sorted_wrt (\<lambda>a b. startLineNumber a \<le> startLineNumber b \<and>
                 (startLineNumber a = startLineNumber b \<longrightarrow> severity b \<le> severity a))
              (sortMarkers [mkMarker 2 4 ''a'', mkMarker 1 2 ''b'', mkMarker 1 8 ''c'',
                            mkMarker 2 4 ''d'', mkMarker 1 8 ''e''])"
  using sortMarkers_sorted_stable_permutation
          [of "[mkMarker 2 4 ''a'', mkMarker 1 2 ''b'', mkMarker 1 8 ''c'',
                mkMarker 2 4 ''d'', mkMarker 1 8 ''e'']"]
  by (simp add: sortMarkers_def arraySort_def compareMarkers_def mkMarker_def)

section \<open>Grouping by line and the per-line cap\<close>

lemma firstOccurrences_snoc:
  "firstOccurrences (xs @ [x]) =
     (if x \<in> set xs then firstOccurrences xs else firstOccurrences xs @ [x])"
  by (simp add: firstOccurrences_def)

lemma distinct_firstOccurrences [simp]: "distinct (firstOccurrences xs)"
  by (simp add: firstOccurrences_def)

lemma set_firstOccurrences [simp]: "set (firstOccurrences xs) = set xs"
  by (simp add: firstOccurrences_def)

lemma mapPush_map:
  assumes "distinct K"
  shows "mapPush k m (map (\<lambda>l. (l, f l)) K) =
     (if k \<in> set K then map (\<lambda>l. (l, if l = k then f l @ [m] else f l)) K
      else map (\<lambda>l. (l, f l)) K @ [(k, [m])])"
  using assms
proof (induction K)
  case Nil
  then show ?case by simp
next
  case (Cons a K)
  show ?case
  proof (cases "a = k")
    case True
    with Cons.prems have "k \<notin> set K" by simp
    then have "map (\<lambda>l. (l, if l = k then f l @ [m] else f l)) K = map (\<lambda>l. (l, f l)) K"
      by (intro map_cong) auto
    with True show ?thesis by simp
  next
    case False
    with Cons show ?thesis by simp
  qed
qed

lemma groupMarkersByLine_snoc:
  "groupMarkersByLine (ms @ [m]) = mapPush (startLineNumber m) m (groupMarkersByLine ms)"
  by (simp add: groupMarkersByLine_def)

lemma groupMarkersByLine_closed:
  "groupMarkersByLine ms =
     map (\<lambda>l. (l, filter (onLine l) ms)) (firstOccurrences (map startLineNumber ms))"
proof (induction ms rule: rev_induct)
  case Nil
  then show ?case by (simp add: groupMarkersByLine_def firstOccurrences_def)
next
  case (snoc m ms)
  let ?K = "firstOccurrences (map startLineNumber ms)"
  let ?k = "startLineNumber m"
  have step: "groupMarkersByLine (ms @ [m]) =
      mapPush ?k m (map (\<lambda>l. (l, filter (onLine l) ms)) ?K)"
    by (simp add: groupMarkersByLine_snoc snoc.IH)
  show ?case
  proof (cases "?k \<in> set (map startLineNumber ms)")
    case True
    then have "groupMarkersByLine (ms @ [m]) =
        map (\<lambda>l. (l, if l = ?k then filter (onLine l) ms @ [m] else filter (onLine l) ms)) ?K"
      by (simp add: step mapPush_map)
    also have "\<dots> = map (\<lambda>l. (l, filter (onLine l) (ms @ [m]))) ?K"
      by (intro map_cong) auto
    finally show ?thesis using True by (simp add: firstOccurrences_snoc)
  next
    case False
    have none: "filter (onLine ?k) ms = []"
    proof (rule ccontr)
      assume "filter (onLine ?k) ms \<noteq> []"
      then obtain x where "x \<in> set ms" "startLineNumber x = ?k"
        by (auto simp: filter_empty_conv)
      then have "?k \<in> startLineNumber ` set ms" by (metis imageI)
      then have "?k \<in> set (map startLineNumber ms)" by simp
      with False show False by simp
    qed
    from False have "groupMarkersByLine (ms @ [m]) =
        map (\<lambda>l. (l, filter (onLine l) ms)) ?K @ [(?k, [m])]"
      by (simp add: step mapPush_map)
    also have "map (\<lambda>l. (l, filter (onLine l) ms)) ?K
             = map (\<lambda>l. (l, filter (onLine l) (ms @ [m]))) ?K"
      using False by (intro map_cong) auto
    finally have "groupMarkersByLine (ms @ [m]) =
        map (\<lambda>l. (l, filter (onLine l) (ms @ [m]))) ?K @ [(?k, [m])]" .
    moreover have "onLine ?k m" by simp
    ultimately show ?thesis using False none
      by (simp add: firstOccurrences_snoc)
  qed
qed

lemma concat_map_single_key:
  assumes "distinct K"
  shows "concat (map (\<lambda>k. if k = l then A else []) K) = (if l \<in> set K then A else [])"
  using assms by (induction K) auto

lemma filter_take_filter_other:
  "l \<noteq> k \<Longrightarrow> filter (onLine l) (take n (filter (onLine k) ms)) = []"
  by (auto simp: filter_empty_conv dest: in_set_takeD)

lemma filter_take_filter_same:
  "filter (onLine l) (take n (filter (onLine l) ms)) = take n (filter (onLine l) ms)"
  by (rule filter_True) (auto dest: in_set_takeD)

lemma filter_capLines:
  "filter (onLine l) (capLines n ms) = take n (filter (onLine l) ms)"
proof -
  let ?K = "firstOccurrences (map startLineNumber ms)"
  have "filter (onLine l) (capLines n ms) =
        concat (map (\<lambda>k. filter (onLine l) (take n (filter (onLine k) ms))) ?K)"
    by (simp add: capLines_def groupMarkersByLine_closed filter_concat comp_def)
  also have "\<dots> = concat (map (\<lambda>k. if k = l then take n (filter (onLine l) ms) else []) ?K)"
    by (intro arg_cong [where f = concat] map_cong refl)
       (simp add: filter_take_filter_other filter_take_filter_same)
  also have "\<dots> = (if l \<in> set ?K then take n (filter (onLine l) ms) else [])"
    by (rule concat_map_single_key) simp
  also have "\<dots> = take n (filter (onLine l) ms)"
    by (auto simp: filter_empty_conv)
  finally show ?thesis .
qed


lemma filterMarkers_beforeCap:
  "filterMarkers cfg position ms =
     (if maxMarkersPerLine cfg > 0
      then capLines (nat (maxMarkersPerLine cfg)) (beforeCap cfg position ms)
      else beforeCap cfg position ms)"
  by (simp add: filterMarkers_def beforeCap_def capLines_def Let_def)

lemma beforeCap_ignores_cap [simp]:
  "beforeCap (cfg\<lparr>maxMarkersPerLine := n\<rparr>) position ms = beforeCap cfg position ms"
  by (simp add: beforeCap_def)

lemma filterMarkers_uncapped:
  "filterMarkers (cfg\<lparr>maxMarkersPerLine := 0\<rparr>) position ms = beforeCap cfg position ms"
  by (simp add: filterMarkers_beforeCap)

lemma beforeCap_as_filter:
  "\<exists>P. beforeCap cfg position ms = filter P (sort_key markerKey ms)"
proof -
  let ?A = "\<lambda>marker. severity marker \<in> set (severityFilter cfg)"
  have s: "sortMarkers (filter ?A ms) = filter ?A (sort_key markerKey ms)"
    by (simp add: sortMarkers_sort_key filter_sort)
  show ?thesis
  proof (cases "\<exists>c. followCursor cfg = ActiveLine \<and> position = Some c \<and> c \<noteq> 0")
    case True
    then obtain c where "followCursor cfg = ActiveLine" "position = Some c" "c \<noteq> 0" by blast
    then have "beforeCap cfg position ms = filter (\<lambda>m. ?A m \<and> onLine c m) (sort_key markerKey ms)"
      by (simp add: beforeCap_def s conj_commute)
    then show ?thesis by blast
  next
    case False
    then have "beforeCap cfg position ms = filter ?A (sort_key markerKey ms)"
      by (cases position) (auto simp: beforeCap_def s Let_def)
    then show ?thesis by blast
  qed
qed

lemma sorted_line_group:
  "sorted (map (\<lambda>m. - severity m) (filter (onLine l) (beforeCap cfg position ms)))"
proof -
  obtain P where P: "beforeCap cfg position ms = filter P (sort_key markerKey ms)"
    using beforeCap_as_filter by blast
  let ?L = "filter (\<lambda>m. onLine l m \<and> P m) (sort_key markerKey ms)"
  have "sorted (map markerKey (sort_key markerKey ms))" by simp
  then have "sorted_wrt (\<lambda>a b. markerKey a \<le> markerKey b) (sort_key markerKey ms)"
    by (simp add: sorted_map)
  then have "sorted_wrt (\<lambda>a b. markerKey a \<le> markerKey b) ?L"
    by (rule sorted_wrt_filter)
  then have "sorted_wrt (\<lambda>a b. - severity a \<le> - severity b) ?L"
    by (rule sorted_wrt_mono_rel [rotated]) (auto simp: markerKey_def less_eq_prod_def)
  then show ?thesis by (simp add: P sorted_map conj_commute)
qed

lemma sorted_wrt_take_drop:
  assumes "sorted_wrt R xs" "x \<in> set (take n xs)" "y \<in> set (drop n xs)"
  shows "R x y"
proof -
  from assms(1) have "sorted_wrt R (take n xs @ drop n xs)" by simp
  with assms(2,3) show ?thesis unfolding sorted_wrt_append by blast
qed

text \<open>
  C3. With a positive per-line cap N, the markers the filtering pass keeps on a line are
  at most N; they are the first N of the line's markers that pass the other steps (the
  pass with the cap switched off), which stand in non-increasing severity; so no marker
  dropped from the line has a higher severity than a marker kept on it.
\<close>

theorem per_line_cap:
  assumes "0 < maxMarkersPerLine cfg"
  shows "length (filter (onLine l) (filterMarkers cfg position ms)) \<le> nat (maxMarkersPerLine cfg) \<and>
         filter (onLine l) (filterMarkers cfg position ms)
           = take (nat (maxMarkersPerLine cfg))
               (filter (onLine l) (filterMarkers (cfg\<lparr>maxMarkersPerLine := 0\<rparr>) position ms)) \<and>
         sorted (map (\<lambda>m. - severity m)
               (filter (onLine l) (filterMarkers (cfg\<lparr>maxMarkersPerLine := 0\<rparr>) position ms))) \<and>
         (\<forall>x \<in> set (filter (onLine l) (filterMarkers cfg position ms)).
          \<forall>y \<in> set (drop (nat (maxMarkersPerLine cfg))
                     (filter (onLine l) (filterMarkers (cfg\<lparr>maxMarkersPerLine := 0\<rparr>) position ms))).
            severity y \<le> severity x)"
proof -
  let ?n = "nat (maxMarkersPerLine cfg)"
  let ?G = "filter (onLine l) (beforeCap cfg position ms)"
  have kept: "filter (onLine l) (filterMarkers cfg position ms) = take ?n ?G"
    using assms by (simp add: filterMarkers_beforeCap filter_capLines)
  have srt: "sorted (map (\<lambda>m. - severity m) ?G)" by (rule sorted_line_group)
  then have "sorted_wrt (\<lambda>a b. - severity a \<le> - severity b) ?G"
    by (simp add: sorted_map)
  then have "\<forall>x \<in> set (take ?n ?G). \<forall>y \<in> set (drop ?n ?G). severity y \<le> severity x"
    using sorted_wrt_take_drop by fastforce
  with kept srt show ?thesis by (simp add: filterMarkers_uncapped)
qed

lemma set_capLines: "set (capLines n ms) \<subseteq> set ms"
  by (auto simp: capLines_def groupMarkersByLine_closed dest: in_set_takeD)

lemma capLines_single_line:
  assumes "\<forall>m \<in> set ms. onLine c m"
  shows "capLines n ms = take n ms"
proof -
  have "\<forall>m \<in> set (capLines n ms). onLine c m" using assms set_capLines by blast
  then have "capLines n ms = filter (onLine c) (capLines n ms)" by simp
  also have "\<dots> = take n (filter (onLine c) ms)" by (rule filter_capLines)
  also have "\<dots> = take n ms" using assms by simp
  finally show ?thesis .
qed

text \<open>
  C1 (amended). In activeLine mode, when the editor reports no cursor position the cursor
  step is skipped: the pass keeps what it keeps in allLines mode. When the cursor is on
  line c (not 0), the pass keeps exactly the markers on line c among those it keeps in
  allLines mode.
\<close>

theorem activeLine_filter:
  assumes "followCursor cfg = ActiveLine"
  shows "filterMarkers cfg None ms = filterMarkers (cfg\<lparr>followCursor := AllLines\<rparr>) None ms \<and>
         (c \<noteq> 0 \<longrightarrow>
            filterMarkers cfg (Some c) ms
              = filter (onLine c) (filterMarkers (cfg\<lparr>followCursor := AllLines\<rparr>) (Some c) ms))"
proof (intro conjI impI)
  show "filterMarkers cfg None ms = filterMarkers (cfg\<lparr>followCursor := AllLines\<rparr>) None ms"
    using assms by (simp add: filterMarkers_beforeCap beforeCap_def)
next
  assume c: "c \<noteq> 0"
  let ?S = "sortMarkers (filter (\<lambda>marker. severity marker \<in> set (severityFilter cfg)) ms)"
  have a: "beforeCap cfg (Some c) ms = filter (onLine c) ?S"
    using assms c by (simp add: beforeCap_def)
  have b: "beforeCap (cfg\<lparr>followCursor := AllLines\<rparr>) (Some c) ms = ?S"
    by (simp add: beforeCap_def)
  show "filterMarkers cfg (Some c) ms
          = filter (onLine c) (filterMarkers (cfg\<lparr>followCursor := AllLines\<rparr>) (Some c) ms)"
  proof (cases "0 < maxMarkersPerLine cfg")
    case True
    have "capLines (nat (maxMarkersPerLine cfg)) (filter (onLine c) ?S)
            = take (nat (maxMarkersPerLine cfg)) (filter (onLine c) ?S)"
      by (rule capLines_single_line [where c = c]) simp
    with True show ?thesis by (simp add: filterMarkers_beforeCap a b filter_capLines)
  next
    case False
    then show ?thesis by (simp add: filterMarkers_beforeCap a b)
  qed
qed


theorem per_line_cap_witness:
  "0 < maxMarkersPerLine (DEFAULT_OPTIONS\<lparr>maxMarkersPerLine := 2\<rparr>) \<and>
   map message (filter (onLine 1)
     (filterMarkers (DEFAULT_OPTIONS\<lparr>maxMarkersPerLine := 2\<rparr>) None
        [mkMarker 1 2 ''info'', mkMarker 1 8 ''error'', mkMarker 2 1 ''hint'',
         mkMarker 1 4 ''warning'']))
     = [''error'', ''warning''] \<and>
   map message (filter (onLine 1)
     (filterMarkers (DEFAULT_OPTIONS\<lparr>maxMarkersPerLine := 2, maxMarkersPerLine := 0\<rparr>) None
        [mkMarker 1 2 ''info'', mkMarker 1 8 ''error'', mkMarker 2 1 ''hint'',
         mkMarker 1 4 ''warning'']))
     = [''error'', ''warning'', ''info'']"
  using per_line_cap [of "DEFAULT_OPTIONS\<lparr>maxMarkersPerLine := 2\<rparr>" 1 None
          "[mkMarker 1 2 ''info'', mkMarker 1 8 ''error'', mkMarker 2 1 ''hint'',
            mkMarker 1 4 ''warning'']"]
  by (simp add: filterMarkers_def DEFAULT_OPTIONS_def sortMarkers_def arraySort_def
        compareMarkers_def groupMarkersByLine_def mkMarker_def)

theorem activeLine_filter_witness:
  "followCursor (DEFAULT_OPTIONS\<lparr>followCursor := ActiveLine\<rparr>) = ActiveLine \<and> (3::int) \<noteq> 0 \<and>
   map message (filterMarkers (DEFAULT_OPTIONS\<lparr>followCursor := ActiveLine\<rparr>) (Some 3)
        [mkMarker 1 8 ''first'', mkMarker 3 4 ''third'']) = [''third''] \<and>
   map message (filterMarkers (DEFAULT_OPTIONS\<lparr>followCursor := ActiveLine\<rparr>) None
        [mkMarker 1 8 ''first'', mkMarker 3 4 ''third'']) = [''first'', ''third'']"
  using activeLine_filter [of "DEFAULT_OPTIONS\<lparr>followCursor := ActiveLine\<rparr>"
          "[mkMarker 1 8 ''first'', mkMarker 3 4 ''third'']" 3]
  by (simp add: filterMarkers_def DEFAULT_OPTIONS_def sortMarkers_def arraySort_def
        compareMarkers_def groupMarkersByLine_def mkMarker_def)

text \<open>
  C1 as stated fails: in activeLine mode with no cursor position the pass keeps the
  marker instead of keeping nothing.
\<close>

theorem activeLine_no_cursor_counterexample:
  "filterMarkers (DEFAULT_OPTIONS\<lparr>followCursor := ActiveLine\<rparr>) None [mkMarker 1 8 ''A'']
     = [mkMarker 1 8 ''A'']"
  by (simp add: filterMarkers_def DEFAULT_OPTIONS_def sortMarkers_def arraySort_def
        groupMarkersByLine_def mkMarker_def)

section \<open>formatMessage: truncation\<close>

lemma formatMessage_truncated:
  assumes "3 \<le> n" "n < int (length (substituteTokens marker template))"
  shows "length (formatMessage marker template (Some n)) = nat n \<and>
         formatMessage marker template (Some n)
           = take (nat (n - 3)) (substituteTokens marker template) @ ''...''"
  using assms by (auto simp: formatMessage_def Let_def min_def)

lemma formatMessage_unchanged:
  assumes "int (length (substituteTokens marker template)) \<le> n"
  shows "formatMessage marker template (Some n) = substituteTokens marker template"
  using assms by (simp add: formatMessage_def Let_def)

text \<open>
  C2 fails for a maximum length of 1 or 2: \<^verbatim>\<open>substring(0, maxLength - 3)\<close> is empty
  and the result is the three dots, longer than the maximum. (For a maximum of at least
  3 the lemmas above give the claim.)
\<close>

theorem formatMessage_maxLength_two:
  "formatMessage (mkMarker 1 8 ''abcdef'') ''{message}'' (Some 2) = ''...'' \<and>
   length (formatMessage (mkMarker 1 8 ''abcdef'') ''{message}'' (Some 2)) = 3"
  by (simp add: formatMessage_def substituteTokens_def replace_def mkMarker_def codeTruthy_def)

section \<open>formatMessage: only the first occurrence of a token is substituted\<close>










text \<open>
  The occurrence that \<open>replace\<close> consumes is the first one: when the pattern does not
  occur at any position of \<open>a\<close> in \<open>a @ pat @ b\<close>, the text \<open>b\<close> after it, with every
  later occurrence, is kept as it is.
\<close>

lemma splitAtFirst_first:
  assumes "pat \<noteq> []" "startingIn pat a (pat @ b) = 0"
  shows "splitAtFirst pat (a @ pat @ b) = Some (a, b)"
  using assms(2)
proof (induction a)
  case Nil
  obtain c p where p: "pat = c # p" using assms(1) by (cases pat) auto
  show ?case by (simp add: p)
next
  case (Cons c a)
  from Cons.prems have np: "\<not> prefix pat (c # a @ pat @ b)" and z: "startingIn pat a (pat @ b) = 0"
    by (simp_all split: if_splits)
  from Cons.IH [OF z] np show ?case by simp
qed

lemma replace_first_occurrence:
  assumes "pat \<noteq> []" "startingIn pat a (pat @ b) = 0"
  shows "replace (a @ pat @ b) pat r = a @ getSubstitution pat a b r @ b"
  by (simp add: replace_def splitAtFirst_first [OF assms])




section \<open>Decoration construction: one decoration per line\<close>

















section \<open>The orchestrator: outcomes\<close>

lemma stateOf_simps [simp]: "stateOf (Inl (e, s)) = s" "stateOf (Inr s) = s"
  by (simp_all add: stateOf_def)

section \<open>The orchestrator: refresh\<close>

lemma DM_update_effect:
  "submitted (stateOf (DecorationManager_updateDecorations h ms s))
     = submitted s @ [createDecorations (hasRangeCtor h) (config s) ms] \<and>
   config (stateOf (DecorationManager_updateDecorations h ms s)) = config s \<and>
   isDisposed (stateOf (DecorationManager_updateDecorations h ms s)) = isDisposed s"
  by (simp add: DecorationManager_updateDecorations_def Let_def split: sum.splits)

lemma body_effect:
  "submitted (stateOf (updateDecorationsBody h uri s))
     = submitted s @
       (case getModelMarkers h of
          Some query \<Rightarrow>
            (case query uri of
               Inr markers \<Rightarrow>
                 [createDecorations (hasRangeCtor h) (config s)
                    (filterMarkers (config s) (getPosition h)
                       (case markers of None \<Rightarrow> [] | Some ms \<Rightarrow> ms))]
             | Inl e \<Rightarrow> [])
        | None \<Rightarrow> []) \<and>
   config (stateOf (updateDecorationsBody h uri s)) = config s \<and>
   isDisposed (stateOf (updateDecorationsBody h uri s)) = isDisposed s"
proof (cases "getModelMarkers h")
  case None
  then show ?thesis by (simp add: updateDecorationsBody_def)
next
  case (Some query)
  show ?thesis
  proof (cases "query uri")
    case (Inl e)
    with Some show ?thesis by (simp add: updateDecorationsBody_def)
  next
    case (Inr markers)
    let ?f = "filterMarkers (config s) (getPosition h) (case markers of None \<Rightarrow> [] | Some ms \<Rightarrow> ms)"
    note e = DM_update_effect [of h ?f s]
    show ?thesis
    proof (cases "DecorationManager_updateDecorations h ?f s")
      case (Inl es)
      obtain e' s1 where "es = (e', s1)" by (cases es)
      with e Inl Some Inr show ?thesis by (simp add: updateDecorationsBody_def Let_def)
    next
      case r: (Inr s1)
      with e Some Inr show ?thesis by (simp add: updateDecorationsBody_def Let_def emit_def)
    qed
  qed
qed

lemma refresh_effect:
  "submitted (stateOf (refresh h s)) = submitted s @ expectedBatches h (config s) (isDisposed s) \<and>
   config (stateOf (refresh h s)) = config s \<and>
   isDisposed (stateOf (refresh h s)) = isDisposed s"
proof (cases "isDisposed s \<or> \<not> enabled (config s)")
  case True
  then show ?thesis by (auto simp: refresh_def updateDecorationsInternal_def expectedBatches_def)
next
  case active: False
  show ?thesis
  proof (cases "getModel h")
    case (Inl e)
    with active show ?thesis
      by (simp add: refresh_def updateDecorationsInternal_def expectedBatches_def)
  next
    case (Inr m)
    show ?thesis
    proof (cases m)
      case None
      with active Inr show ?thesis
        by (simp add: refresh_def updateDecorationsInternal_def expectedBatches_def)
    next
      case (Some uri)
      show ?thesis
      proof (cases "isMonacoInitialized h")
        case (Inl e)
        with active Inr Some show ?thesis
          by (simp add: refresh_def updateDecorationsInternal_def expectedBatches_def)
      next
        case init: (Inr b)
        show ?thesis
        proof (cases b)
          case False
          with active Inr Some init show ?thesis
            by (simp add: refresh_def updateDecorationsInternal_def expectedBatches_def)
        next
          case True
          note e = body_effect [of h uri s]
          show ?thesis
          proof (cases "updateDecorationsBody h uri s")
            case (Inl es)
            obtain e' s1 where "es = (e', s1)" by (cases es)
            with e Inl active Inr Some init True show ?thesis
              by (simp add: refresh_def updateDecorationsInternal_def expectedBatches_def emit_def
                    split: option.splits sum.splits)
          next
            case r: (Inr s1)
            with e active Inr Some init True show ?thesis
              by (simp add: refresh_def updateDecorationsInternal_def expectedBatches_def
                    split: option.splits sum.splits)
          qed
        qed
      qed
    qed
  qed
qed

text \<open>
  C9. Two calls of refresh in a row, with the same host answers, submit the same
  batches: each submits what \<open>expectedBatches\<close> gives for the configuration and the
  disposed flag of the start state, which refresh does not change.
\<close>

theorem refresh_twice_same_batch:
  "newBatches s (stateOf (refresh h s)) = expectedBatches h (config s) (isDisposed s) \<and>
   newBatches (stateOf (refresh h s)) (stateOf (refresh h (stateOf (refresh h s))))
     = expectedBatches h (config s) (isDisposed s)"
  using refresh_effect [of h s] refresh_effect [of h "stateOf (refresh h s)"]
  by (simp add: newBatches_def)

section \<open>The orchestrator: the functions taken from debounce\<close>

lemma thrown_simps [simp]: "thrown (Inl (e, s)) = Some e" "thrown (Inr s) = None"
  by (simp_all add: thrown_def)

lemma throws_simps [simp]: "throws (Inl es)" "\<not> throws (Inr s)"
  by (simp_all add: throws_def)

text \<open>With both fields undefined, the two calls throw.\<close>

lemma call_updateDecorations_unbound:
  "unbound s \<Longrightarrow>
   call_updateDecorations s = Inl (TypeError ''this.updateDecorations is not a function'', s)"
  by (simp add: call_updateDecorations_def unbound_def)

lemma call_cancelUpdateDecorations_unbound:
  "unbound s \<Longrightarrow>
   call_cancelUpdateDecorations s
     = Inl (TypeError ''this.cancelUpdateDecorations is not a function'', s)"
  by (simp add: call_cancelUpdateDecorations_def unbound_def)

text \<open>No method gives either field a function.\<close>

lemma unbound_frame:
  assumes "updateDecorations s' = updateDecorations s"
          "cancelUpdateDecorations s' = cancelUpdateDecorations s" "unbound s"
  shows "unbound s'"
  using assms by (simp add: unbound_def)

lemma unbound_emit [simp]: "unbound (emit ev s) = unbound s"
  by (simp add: unbound_def emit_def)

lemma unbound_clearDecorations:
  "unbound s \<Longrightarrow> unbound (stateOf (clearDecorations h s))"
  by (auto simp: clearDecorations_def unbound_def Let_def split: sum.splits)

lemma unbound_body:
  "unbound s \<Longrightarrow> unbound (stateOf (updateDecorationsBody h uri s))"
  by (auto simp: updateDecorationsBody_def DecorationManager_updateDecorations_def emit_def
        unbound_def Let_def split: sum.splits option.splits)

lemma unbound_then_emit:
  assumes "unbound (stateOf r)"
  shows "unbound (stateOf (case r of Inl es \<Rightarrow> Inl es | Inr s1 \<Rightarrow> Inr (emit (f s1) s1)))"
proof (cases r)
  case (Inl es)
  obtain e s1 where "es = (e, s1)" by (cases es)
  with assms Inl show ?thesis by simp
next
  case (Inr s1)
  with assms show ?thesis by simp
qed

lemma unbound_internal:
  assumes "unbound s"
  shows "unbound (stateOf (updateDecorationsInternal h s))"
proof -
  have inner: "unbound (stateOf (case updateDecorationsBody h uri s of
            Inl (e, s1) \<Rightarrow> Inr (emit (ErrorEvent e ''updateDecorationsInternal'') s1)
          | Inr s1 \<Rightarrow> Inr s1))" for uri
  proof (cases "updateDecorationsBody h uri s")
    case (Inl es)
    obtain e s1 where es: "es = (e, s1)" by (cases es)
    with unbound_body [OF assms, of h uri] Inl show ?thesis by simp
  next
    case (Inr s1)
    with unbound_body [OF assms, of h uri] show ?thesis by simp
  qed
  show ?thesis
  proof (cases "getModel h")
    case (Inl e)
    with assms show ?thesis by (simp add: updateDecorationsInternal_def)
  next
    case (Inr m)
    show ?thesis
    proof (cases m)
      case None
      with assms Inr show ?thesis by (simp add: updateDecorationsInternal_def)
    next
      case (Some uri)
      show ?thesis
      proof (cases "isMonacoInitialized h")
        case (Inl e)
        with assms Inr Some show ?thesis by (simp add: updateDecorationsInternal_def)
      next
        case init: (Inr b)
        with assms Inr Some inner [of uri] show ?thesis
          by (cases b) (simp_all add: updateDecorationsInternal_def)
      qed
    qed
  qed
qed

lemma unbound_setupEventListeners:
  "unbound s \<Longrightarrow> unbound (stateOf (setupEventListeners h s))"
  by (auto simp: setupEventListeners_def unbound_def Let_def split: sum.splits bool.splits)

lemma unbound_initialize:
  assumes "unbound s"
  shows "unbound (stateOf (initialize h s))"
proof (cases "enabled (config s)")
  case False
  with assms show ?thesis by (simp add: initialize_def)
next
  case True
  let ?r = "setupEventListeners h (injectStyles h s)"
  have "unbound (injectStyles h s)" using assms by (simp add: unbound_def injectStyles_def)
  then have u: "unbound (stateOf ?r)" by (rule unbound_setupEventListeners)
  show ?thesis
  proof (cases ?r)
    case (Inl es)
    obtain e s1 where "es = (e, s1)" by (cases es)
    with u Inl True show ?thesis by (simp add: initialize_def)
  next
    case (Inr s1)
    with u have "unbound s1" by simp
    with Inr True show ?thesis
      by (auto simp: initialize_def call_updateDecorations_unbound split: sum.splits bool.splits)
  qed
qed

lemma unbound_config [simp]: "unbound (s\<lparr> config := c \<rparr>) = unbound s"
  by (simp add: unbound_def)

lemma updateOptions_delay_throws:
  assumes "unbound s" "optUpdateDelay newOptions = Some d"
  shows "updateOptions h newOptions s
           = Inl (TypeError ''this.cancelUpdateDecorations is not a function'',
                  s\<lparr> config := mergeOptions (config s) newOptions \<rparr>)"
  using assms by (simp add: updateOptions_def Let_def call_cancelUpdateDecorations_unbound)

lemma updateOptions_plain_throws:
  assumes "unbound s" "optUpdateDelay newOptions = None" "optEnabled newOptions = None"
  shows "updateOptions h newOptions s
           = Inl (TypeError ''this.updateDecorations is not a function'',
                  s\<lparr> config := mergeOptions (config s) newOptions \<rparr>)"
  using assms by (simp add: updateOptions_def Let_def call_updateDecorations_unbound)

lemma dispose_throws:
  assumes "unbound s" "\<not> isDisposed s"
  shows "dispose h s
           = Inl (TypeError ''this.cancelUpdateDecorations is not a function'',
                  s\<lparr> isDisposed := True \<rparr>)"
  using assms by (simp add: dispose_def call_cancelUpdateDecorations_unbound unbound_def)

lemma unbound_updateOptions:
  assumes "unbound s"
  shows "unbound (stateOf (updateOptions h newOptions s))"
proof (cases "optUpdateDelay newOptions")
  case (Some d)
  with assms show ?thesis by (simp add: updateOptions_delay_throws)
next
  case None
  let ?s1 = "s\<lparr> config := mergeOptions (config s) newOptions \<rparr>"
  have u1: "unbound ?s1" using assms by simp
  let ?r = "(case optEnabled newOptions of
                      Some newEnabled \<Rightarrow>
                        (if newEnabled \<and> \<not> enabled (config s) then
                           (case initialize h ?s1 of
                              Inl es \<Rightarrow> Inl es
                            | Inr s3 \<Rightarrow> Inr (emit (StatusChanged True) s3))
                         else if \<not> newEnabled \<and> enabled (config s) then
                           (case clearDecorations h ?s1 of
                              Inl es \<Rightarrow> Inl es
                            | Inr s3 \<Rightarrow> Inr (emit (StatusChanged False) s3))
                         else Inr ?s1)
                    | None \<Rightarrow> call_updateDecorations ?s1)"
  have a: "unbound (stateOf (case initialize h ?s1 of
                              Inl es \<Rightarrow> Inl es
                            | Inr s3 \<Rightarrow> Inr (emit (StatusChanged True) s3)))"
    by (rule unbound_then_emit) (rule unbound_initialize [OF u1])
  have b: "unbound (stateOf (case clearDecorations h ?s1 of
                              Inl es \<Rightarrow> Inl es
                            | Inr s3 \<Rightarrow> Inr (emit (StatusChanged False) s3)))"
    by (rule unbound_then_emit) (rule unbound_clearDecorations [OF u1])
  have "unbound (stateOf ?r)"
    using a b u1 by (cases "optEnabled newOptions") (simp_all add: call_updateDecorations_unbound)
  then have "unbound (stateOf (case ?r of Inl es \<Rightarrow> Inl es
       | Inr s4 \<Rightarrow> Inr (emit (ConfigUpdated (config s4)) s4)))"
    by (rule unbound_then_emit)
  with None show ?thesis by (simp add: updateOptions_def Let_def)
qed

lemma unbound_dispose:
  assumes "unbound s"
  shows "unbound (stateOf (dispose h s))"
proof (cases "isDisposed s")
  case True
  with assms show ?thesis by (simp add: dispose_def)
next
  case False
  with assms show ?thesis by (simp add: dispose_throws unbound_def)
qed

lemma unbound_step:
  assumes "unbound s"
  shows "unbound (stateOf (step h c s))"
proof (cases c)
  case Enable
  with assms unbound_initialize [of "s\<lparr> config := (config s)\<lparr> enabled := True \<rparr> \<rparr>" h]
  show ?thesis by (simp add: step_def enable_def)
next
  case Disable
  with assms unbound_clearDecorations [of "s\<lparr> config := (config s)\<lparr> enabled := False \<rparr> \<rparr>" h]
  show ?thesis by (simp add: step_def disable_def)
next
  case Toggle
  with assms unbound_initialize [of "s\<lparr> config := (config s)\<lparr> enabled := True \<rparr> \<rparr>" h]
    unbound_clearDecorations [of "s\<lparr> config := (config s)\<lparr> enabled := False \<rparr> \<rparr>" h]
  show ?thesis by (simp add: step_def toggle_def enable_def disable_def)
next
  case Refresh
  with unbound_internal [OF assms] show ?thesis by (simp add: step_def refresh_def)
next
  case (UpdateOptions newOptions)
  with unbound_updateOptions [OF assms] show ?thesis by (simp add: step_def)
next
  case Dispose
  with unbound_dispose [OF assms] show ?thesis by (simp add: step_def)
next
  case MarkersChanged
  with assms show ?thesis
    by (auto simp: step_def onMarkersChanged_def call_updateDecorations_unbound
          split: sum.splits option.splits)
next
  case CursorMoved
  with assms show ?thesis
    by (simp add: step_def onCursorPosition_def call_updateDecorations_unbound)
next
  case ModelChanged
  show ?thesis
  proof (cases "clearDecorations h s")
    case (Inl es)
    obtain e s1 where "es = (e, s1)" by (cases es)
    with unbound_clearDecorations [OF assms, of h] Inl ModelChanged assms show ?thesis
      by (simp add: step_def onModelChanged_def)
  next
    case (Inr s1)
    with unbound_clearDecorations [OF assms, of h] have "unbound s1" by simp
    with Inr ModelChanged assms show ?thesis
      by (simp add: step_def onModelChanged_def call_updateDecorations_unbound)
  qed
qed

lemma unbound_run: "unbound s \<Longrightarrow> unbound (run h cs s)"
  by (induction cs arbitrary: s) (simp_all add: unbound_step)

lemma unbound_constructor: "unbound (stateOf (constructor h opts))"
proof -
  let ?s = "\<lparr> config = mergeOptions DEFAULT_OPTIONS opts, disposables = [], isDisposed = False,
             updateDecorations = None, cancelUpdateDecorations = None, decorations = [],
             lastDecorationCount = 0, timers = [], nextTimerId = 1, emitted = [],
             submitted = [], stylesInjected = False \<rparr>"
  have "unbound ?s" by (simp add: unbound_def)
  then have "unbound (stateOf (initialize h ?s))" by (rule unbound_initialize)
  then show ?thesis by (simp add: constructor_def Let_def propertyOf_def)
qed

text \<open>
  So on every instance, however it was built and whatever has happened to it, a call of
  updateOptions with an updateDelay throws, with nothing cancelled and nothing rebuilt.
\<close>

lemma reachable_updateOptions_delay_throws:
  assumes "optUpdateDelay newOptions = Some d"
  shows "thrown (updateOptions h newOptions (run h' calls (stateOf (constructor h'' opts))))
           = Some (TypeError ''this.cancelUpdateDecorations is not a function'')"
  using updateOptions_delay_throws [OF unbound_run [OF unbound_constructor] assms]
  by simp

lemma mergeOptions_noOptions [simp]: "mergeOptions cfg noOptions = cfg"
  by (simp add: mergeOptions_def noOptions_def orElse_def)

lemma exampleHost_fields [simp]:
  "getModel exampleHost = Inr (Some ''file:///test.ts'')"
  "getPosition exampleHost = Some 1"
  "deltaDecorations exampleHost old new = Inr (map (\<lambda>d. ''decoration'') new)"
  "getModelMarkers exampleHost = Some (\<lambda>uri. Inr (Some [mkMarker 1 8 ''A'']))"
  "hasOnDidChangeMarkers exampleHost" "hasRangeCtor exampleHost" "hasDocument exampleHost"
  by (simp_all add: exampleHost_def)

lemma disposedModelHost_fields [simp]:
  "getModel disposedModelHost = Inr (Some ''file:///test.ts'')"
  "getPosition disposedModelHost = Some 1"
  "deltaDecorations disposedModelHost old new = Inl (HostError ''Model is disposed!'')"
  "getModelMarkers disposedModelHost = Some (\<lambda>uri. Inr (Some [mkMarker 1 8 ''A'']))"
  "hasOnDidChangeMarkers disposedModelHost" "hasRangeCtor disposedModelHost"
  "hasDocument disposedModelHost"
  by (simp_all add: disposedModelHost_def exampleHost_def)

lemma exampleHost_initialized [simp]:
  "isMonacoInitialized exampleHost = Inr True" "isMonacoInitialized disposedModelHost = Inr True"
  by (simp_all add: isMonacoInitialized_def)

lemma disabledLens_constructed:
  "constructor exampleHost (noOptions\<lparr> optEnabled := Some False \<rparr>) = Inr disabledLens"
  "constructor disposedModelHost (noOptions\<lparr> optEnabled := Some False \<rparr>) = Inr disabledLens"
  by (simp_all add: constructor_def initialize_def propertyOf_def disabledLens_def Let_def
        DEFAULT_OPTIONS_def mergeOptions_def noOptions_def orElse_def)

lemma exampleLens_reached:
  "enable exampleHost disabledLens
     = Inl (TypeError ''this.updateDecorations is not a function'', exampleLens)"
  "enable disposedModelHost disabledLens
     = Inl (TypeError ''this.updateDecorations is not a function'', exampleLens)"
  by (simp_all add: enable_def initialize_def setupEventListeners_def injectStyles_def
        call_updateDecorations_def disabledLens_def exampleLens_def Let_def DEFAULT_OPTIONS_def)

lemma constructor_throws_on_initialized_host:
  "thrown (constructor exampleHost noOptions)
     = Some (TypeError ''this.updateDecorations is not a function'')"
  by (simp add: constructor_def initialize_def setupEventListeners_def injectStyles_def
        call_updateDecorations_def propertyOf_def Let_def DEFAULT_OPTIONS_def)

text \<open>
  C7 fails on the code. debounce of utils.ts returns the debounced function alone, so
  the fields \<^verbatim>\<open>updateDecorations\<close> and \<^verbatim>\<open>cancelUpdateDecorations\<close> that the
  constructor takes from it are undefined. updateOptions with an updateDelay stores the
  merged configuration and then throws a TypeError at
  \<^verbatim>\<open>this.cancelUpdateDecorations()\<close>: nothing is cancelled, no debounce is rebuilt and no
  event is emitted. It is so on the instance built with \<^verbatim>\<open>enabled: false\<close>, on that
  instance once enabled, and on every other instance (lemma
  \<open>reachable_updateOptions_delay_throws\<close>).
\<close>

theorem updateOptions_delay_throws_TypeError:
  "thrown (updateOptions exampleHost (noOptions\<lparr> optUpdateDelay := Some 250 \<rparr>) disabledLens)
     = Some (TypeError ''this.cancelUpdateDecorations is not a function'') \<and>
   stateOf (updateOptions exampleHost (noOptions\<lparr> optUpdateDelay := Some 250 \<rparr>) disabledLens)
     = disabledLens\<lparr> config := (config disabledLens)\<lparr> updateDelay := 250 \<rparr> \<rparr> \<and>
   thrown (updateOptions exampleHost (noOptions\<lparr> optUpdateDelay := Some 250 \<rparr>) exampleLens)
     = Some (TypeError ''this.cancelUpdateDecorations is not a function'') \<and>
   stateOf (updateOptions exampleHost (noOptions\<lparr> optUpdateDelay := Some 250 \<rparr>) exampleLens)
     = exampleLens\<lparr> config := (config exampleLens)\<lparr> updateDelay := 250 \<rparr> \<rparr> \<and>
   updateDecorations (stateOf (updateOptions exampleHost
       (noOptions\<lparr> optUpdateDelay := Some 250 \<rparr>) exampleLens)) = None \<and>
   emitted (stateOf (updateOptions exampleHost
       (noOptions\<lparr> optUpdateDelay := Some 250 \<rparr>) exampleLens)) = []"
  by (simp add: updateOptions_def call_cancelUpdateDecorations_def Let_def disabledLens_def
        exampleLens_def mergeOptions_def noOptions_def orElse_def DEFAULT_OPTIONS_def)

section \<open>The orchestrator: exceptions\<close>

lemma refresh_reports:
  assumes "getModel h = Inr m"
  shows "\<not> throws (refresh h s)"
  using assms
  by (auto simp: refresh_def updateDecorationsInternal_def isMonacoInitialized_def throws_def
        split: sum.splits option.splits bool.splits)

lemma disable_refresh_total_host:
  assumes "\<And>old new. \<exists>ids. deltaDecorations h old new = Inr ids" "\<exists>m. getModel h = Inr m"
  shows "\<not> throws (disable h s) \<and> \<not> throws (refresh h s)"
proof -
  have clear: "\<not> throws (clearDecorations h x)" for x
    using assms(1) [of "decorations x" "[]"] by (auto simp: clearDecorations_def Let_def)
  have "\<not> throws (refresh h s)"
    using assms(2) refresh_reports by blast
  with clear show ?thesis by (simp add: disable_def)
qed

text \<open>
  C6 fails on a host whose \<^verbatim>\<open>deltaDecorations\<close> throws: disable and updateOptions with
  \<^verbatim>\<open>enabled: false\<close> call clearDecorations outside any \<^verbatim>\<open>try\<close> and the exception
  reaches the caller, with no error event; refresh catches the same exception and
  reports it. dispose throws as well, already at \<^verbatim>\<open>this.cancelUpdateDecorations()\<close>.
  (Lemma \<open>disable_refresh_total_host\<close>: disable and refresh do not throw when
  \<^verbatim>\<open>deltaDecorations\<close> and \<^verbatim>\<open>getModel\<close> do not.)
\<close>

theorem disable_propagates_host_exception:
  "throws (disable disposedModelHost exampleLens) \<and>
   emitted (stateOf (disable disposedModelHost exampleLens)) = [] \<and>
   throws (dispose disposedModelHost exampleLens) \<and>
   throws (updateOptions disposedModelHost (noOptions\<lparr> optEnabled := Some False \<rparr>) exampleLens) \<and>
   refresh disposedModelHost exampleLens
     = Inr (exampleLens\<lparr> emitted := [ErrorEvent (HostError ''Model is disposed!'')
                                        ''updateDecorationsInternal''],
                         submitted := [createDecorations True DEFAULT_OPTIONS [mkMarker 1 8 ''A'']] \<rparr>)"
  by (simp add: disable_def dispose_def updateOptions_def refresh_def
        updateDecorationsInternal_def updateDecorationsBody_def
        DecorationManager_updateDecorations_def clearDecorations_def
        call_cancelUpdateDecorations_def emit_def
        throws_def exampleLens_def Let_def
        DEFAULT_OPTIONS_def mergeOptions_def noOptions_def orElse_def
        filterMarkers_def sortMarkers_def arraySort_def groupMarkersByLine_def mkMarker_def)

theorem refresh_twice_same_batch_witness:
  "newBatches exampleLens (stateOf (refresh exampleHost exampleLens))
     = [createDecorations True DEFAULT_OPTIONS [mkMarker 1 8 ''A'']] \<and>
   newBatches (stateOf (refresh exampleHost exampleLens))
       (stateOf (refresh exampleHost (stateOf (refresh exampleHost exampleLens))))
     = [createDecorations True DEFAULT_OPTIONS [mkMarker 1 8 ''A'']] \<and>
   length (createDecorations True DEFAULT_OPTIONS [mkMarker 1 8 ''A'']) = 1"
proof -
  have "expectedBatches exampleHost (config exampleLens) (isDisposed exampleLens)
          = [createDecorations True DEFAULT_OPTIONS [mkMarker 1 8 ''A'']]"
    by (simp add: expectedBatches_def exampleLens_def)
       (simp add: DEFAULT_OPTIONS_def filterMarkers_def sortMarkers_def
          arraySort_def groupMarkersByLine_def mkMarker_def)
  moreover have "length (createDecorations True DEFAULT_OPTIONS [mkMarker 1 8 ''A'']) = 1"
    by (simp add: createDecorations_def groupMarkersByLineSorted_def groupMarkersByLine_def
          arraySort_def createLineDecoration_def Let_def)
  ultimately show ?thesis
    using refresh_twice_same_batch [of exampleLens exampleHost] by simp
qed

section \<open>The pipeline leaves the host's markers alone\<close>

lemma framed_refl [simp]: "framed n st st"
  by (simp add: framed_def)

lemma framed_trans: "framed n st st1 \<Longrightarrow> framed n st1 st2 \<Longrightarrow> framed n st st2"
  by (auto simp: framed_def)

lemma framed_alloc:
  assumes "n \<le> nextArray st"
  shows "framed n st (snd (allocArray xs st)) \<and> fst (allocArray xs st) = nextArray st \<and>
         nextArray (snd (allocArray xs st)) = Suc (nextArray st)"
  using assms by (simp add: framed_def allocArray_def)

lemma framed_allocD:
  assumes "allocArray xs st = (b, st')" "n \<le> nextArray st"
  shows "framed n st st' \<and> b = nextArray st"
  using assms by (auto simp: framed_def allocArray_def)

lemma framed_write: "n \<le> a \<Longrightarrow> framed n st (writeArray a xs st)"
  by (simp add: framed_def writeArray_def)

lemma nextArray_write [simp]: "nextArray (writeArray a xs st) = nextArray st"
  by (simp add: writeArray_def)

lemma groupPush_above:
  assumes "\<forall>b \<in> snd ` set g. n \<le> b" "n \<le> nextArray st"
  shows "framed n st (snd (groupPush (g, st) r)) \<and>
         (\<forall>b \<in> snd ` set (fst (groupPush (g, st) r)). n \<le> b)"
proof (cases "map_of g (startLineNumber (objects st r))")
  case None
  have "framed n st (pushArray (nextArray st) [r] (snd (allocArray [] st)))"
    unfolding pushArray_def
    using framed_trans [OF conjunct1 [OF framed_alloc [OF assms(2)]] framed_write] assms(2)
    by simp
  with None assms show ?thesis
    by (auto simp: groupPush_def Let_def allocArray_def split: prod.splits)
next
  case (Some b)
  then have "(startLineNumber (objects st r), b) \<in> set g" by (rule map_of_SomeD)
  with assms(1) have "n \<le> b" by force
  then have "framed n st (pushArray b [r] st)"
    unfolding pushArray_def by (rule framed_write)
  with Some assms show ?thesis by (simp add: groupPush_def Let_def)
qed

lemma foldl_groupPush_above:
  assumes "\<forall>b \<in> snd ` set g. n \<le> b" "n \<le> nextArray st"
  shows "framed n st (snd (foldl groupPush (g, st) rs)) \<and>
         (\<forall>b \<in> snd ` set (fst (foldl groupPush (g, st) rs)). n \<le> b)"
  using assms
proof (induction rs arbitrary: g st)
  case Nil
  then show ?case by simp
next
  case (Cons r rs)
  obtain g1 st1 where gp: "groupPush (g, st) r = (g1, st1)" by (cases "groupPush (g, st) r")
  from groupPush_above [OF Cons.prems, of r] gp
  have f1: "framed n st st1" and b1: "\<forall>b \<in> snd ` set g1. n \<le> b" by simp_all
  from f1 Cons.prems(2) have n1: "n \<le> nextArray st1" by (simp add: framed_def)
  from Cons.IH [OF b1 n1] f1 gp show ?case by (auto intro: framed_trans)
qed

lemma groupMarkersByLine_store_framed:
  assumes "n \<le> nextArray st"
  shows "framed n st (snd (groupMarkersByLine_store a st)) \<and>
         (\<forall>b \<in> snd ` set (fst (groupMarkersByLine_store a st)). n \<le> b)"
  unfolding groupMarkersByLine_store_def
  by (rule foldl_groupPush_above) (use assms in simp_all)

lemma framed_nextArray: "framed n st st' \<Longrightarrow> n \<le> nextArray st \<Longrightarrow> n \<le> nextArray st'"
  by (simp add: framed_def)

lemma pushLimited_framed:
  assumes "n \<le> f" "n \<le> nextArray st"
  shows "framed n st (pushLimited k f st e)"
proof -
  obtain l st1 where sl: "sliceArray k (snd e) st = (l, st1)" by (cases "sliceArray k (snd e) st")
  from framed_allocD [OF sl [unfolded sliceArray_def] assms(2)]
  have "framed n st st1" by simp
  moreover have "framed n st1 (pushArray f (arrays st1 l) st1)"
    unfolding pushArray_def using assms(1) by (rule framed_write)
  ultimately show ?thesis using sl by (auto simp: pushLimited_def intro: framed_trans)
qed

lemma foldl_pushLimited_framed:
  assumes "n \<le> f" "n \<le> nextArray st"
  shows "framed n st (foldl (pushLimited k f) st g)"
  using assms(2)
proof (induction g arbitrary: st)
  case Nil
  then show ?case by simp
next
  case (Cons e g)
  have f1: "framed n st (pushLimited k f st e)"
    using assms(1) Cons.prems by (rule pushLimited_framed)
  with Cons.prems have "n \<le> nextArray (pushLimited k f st e)" by (simp add: framed_def)
  from Cons.IH [OF this] f1 show ?case by (auto intro: framed_trans)
qed

lemma foldl_sortArray_framed:
  assumes "\<forall>b \<in> snd ` set g. n \<le> b"
  shows "framed n st (foldl (\<lambda>st entry. sortArray cmp (snd entry) st) st g)"
  using assms
proof (induction g arbitrary: st)
  case Nil
  then show ?case by simp
next
  case (Cons e g)
  from Cons.prems have "n \<le> snd e" by simp
  then have "framed n st (sortArray cmp (snd e) st)"
    unfolding sortArray_def by (rule framed_write)
  moreover from Cons.prems have "\<forall>b \<in> snd ` set g. n \<le> b" by simp
  ultimately show ?case using Cons.IH by (auto intro: framed_trans)
qed

lemma filterMarkers_store_framed:
  assumes "n \<le> nextArray st"
  shows "framed n st (snd (filterMarkers_store cfg position a st))"
proof -
  let ?allowed = "\<lambda>marker. severity marker \<in> set (severityFilter cfg)"
  obtain f0 st0 where s0: "spreadArray a st = (f0, st0)" by (cases "spreadArray a st")
  obtain f1 st1 where s1: "filterArray ?allowed f0 st0 = (f1, st1)"
    by (cases "filterArray ?allowed f0 st0")
  define st2 where "st2 = sortArray compareMarkers f1 st1"
  define r3 where "r3 =
            (if followCursor cfg = ActiveLine then
               (case position of
                  None \<Rightarrow> (f1, st2)
                | Some currentLine \<Rightarrow>
                    (if currentLine \<noteq> 0
                     then filterArray (\<lambda>marker. startLineNumber marker = currentLine) f1 st2
                     else (f1, st2)))
             else (f1, st2))"
  obtain f3 st3 where s3: "r3 = (f3, st3)" by (cases r3)
  have fr0: "framed n st st0"
    using framed_allocD [OF s0 [unfolded spreadArray_def] assms] by simp
  from fr0 assms have n0: "n \<le> nextArray st0" by (rule framed_nextArray)
  have fr1: "framed n st0 st1" and a1: "f1 = nextArray st0"
    using framed_allocD [OF s1 [unfolded filterArray_def] n0] by simp_all
  from fr1 n0 have n1: "n \<le> nextArray st1" by (rule framed_nextArray)
  from a1 n0 have "n \<le> f1" by simp
  then have fr2: "framed n st1 st2" unfolding st2_def sortArray_def by (rule framed_write)
  from fr2 n1 have n2: "n \<le> nextArray st2" by (rule framed_nextArray)
  have fr3: "framed n st2 st3"
  proof (cases "\<exists>c. followCursor cfg = ActiveLine \<and> position = Some c \<and> c \<noteq> 0")
    case True
    then obtain c where "followCursor cfg = ActiveLine" "position = Some c" "c \<noteq> 0" by blast
    with s3 have "filterArray (\<lambda>marker. startLineNumber marker = c) f1 st2 = (f3, st3)"
      by (simp add: r3_def)
    from framed_allocD [OF this [unfolded filterArray_def] n2] show ?thesis by simp
  next
    case False
    with s3 have "st3 = st2" by (cases position) (auto simp: r3_def split: if_splits)
    then show ?thesis by simp
  qed
  from fr3 n2 have n3: "n \<le> nextArray st3" by (rule framed_nextArray)
  have base: "framed n st st3"
    using fr0 fr1 fr2 fr3 by (blast intro: framed_trans)
  have unfold: "filterMarkers_store cfg position a st =
     (if maxMarkersPerLine cfg > 0
      then (let (lineGroups, st) = groupMarkersByLine_store f3 st3;
                (filtered, st) = allocArray [] st
            in (filtered, foldl (pushLimited (nat (maxMarkersPerLine cfg)) filtered) st lineGroups))
      else (f3, st3))"
    using s0 s1 s3 unfolding filterMarkers_store_def r3_def st2_def by (simp add: Let_def)
  show ?thesis
  proof (cases "maxMarkersPerLine cfg > 0")
    case False
    with base unfold show ?thesis by simp
  next
    case True
    obtain g st4 where s4: "groupMarkersByLine_store f3 st3 = (g, st4)"
      by (cases "groupMarkersByLine_store f3 st3")
    obtain f5 st5 where s5: "allocArray [] st4 = (f5, st5)" by (cases "allocArray [] st4")
    from groupMarkersByLine_store_framed [OF n3, of f3] s4
    have fr4: "framed n st3 st4" by simp
    from fr4 n3 have n4: "n \<le> nextArray st4" by (rule framed_nextArray)
    from framed_allocD [OF s5 n4]
    have fr5: "framed n st4 st5" and a5: "f5 = nextArray st4" by simp_all
    from fr5 n4 have n5: "n \<le> nextArray st5" by (rule framed_nextArray)
    from a5 n4 have "n \<le> f5" by simp
    then have fr6: "framed n st5 (foldl (pushLimited (nat (maxMarkersPerLine cfg)) f5) st5 g)"
      using n5 by (rule foldl_pushLimited_framed)
    have "framed n st (foldl (pushLimited (nat (maxMarkersPerLine cfg)) f5) st5 g)"
      using base fr4 fr5 fr6 by (blast intro: framed_trans)
    with True unfold s4 s5 show ?thesis by simp
  qed
qed

lemma groupMarkersByLineSorted_store_framed:
  assumes "n \<le> nextArray st"
  shows "framed n st (snd (groupMarkersByLineSorted_store a st))"
proof -
  obtain g st1 where s1: "groupMarkersByLine_store a st = (g, st1)"
    by (cases "groupMarkersByLine_store a st")
  from groupMarkersByLine_store_framed [OF assms, of a] s1
  have "framed n st st1" and "\<forall>b \<in> snd ` set g. n \<le> b" by simp_all
  with foldl_sortArray_framed [of g n st1 compareSeverity] s1 show ?thesis
    by (auto simp: groupMarkersByLineSorted_store_def intro: framed_trans)
qed

text \<open>
  C8. A recomputation leaves the marker snapshot as it is: after the filtering pass and
  the decoration manager's grouping, every marker object is unchanged and every array
  that existed before, the host's marker array among them, holds the same references in
  the same order. (The pass sorts and truncates arrays it has allocated itself.)
\<close>

theorem pipeline_leaves_snapshot:
  assumes "markers < nextArray st"
  shows "objects (snd (pipeline_store cfg position markers st)) = objects st \<and>
         arrays (snd (pipeline_store cfg position markers st)) markers = arrays st markers \<and>
         (\<forall>a. a < nextArray st \<longrightarrow>
              arrays (snd (pipeline_store cfg position markers st)) a = arrays st a)"
proof -
  let ?n = "nextArray st"
  obtain f st1 where s1: "filterMarkers_store cfg position markers st = (f, st1)"
    by (cases "filterMarkers_store cfg position markers st")
  from filterMarkers_store_framed [of ?n st cfg position markers] s1
  have f1: "framed ?n st st1" by simp
  then have "?n \<le> nextArray st1" by (simp add: framed_def)
  from groupMarkersByLineSorted_store_framed [OF this, of f] f1
  have "framed ?n st (snd (groupMarkersByLineSorted_store f st1))" by (rule framed_trans [rotated])
  then have "framed ?n st (snd (pipeline_store cfg position markers st))"
    using s1 by (simp add: pipeline_store_def)
  with assms show ?thesis by (simp add: framed_def)
qed

lemma map_insertSorted:
  "map f (insertSorted (\<lambda>x y. cmp (f x) (f y)) x ys) = insertSorted cmp (f x) (map f ys)"
  by (induction ys) simp_all

lemma map_arraySort:
  "map f (arraySort (\<lambda>x y. cmp (f x) (f y)) xs) = arraySort cmp (map f xs)"
  by (induction xs) (simp_all add: arraySort_def map_insertSorted)

lemma mapPush_absent:
  "line \<notin> fst ` set G \<Longrightarrow> mapPush line m G = G @ [(line, [m])]"
  by (induction G) auto

lemma mapPush_present:
  "distinct (map fst G) \<Longrightarrow> line \<in> fst ` set G \<Longrightarrow>
   mapPush line m G = map (\<lambda>(l, v). (l, if l = line then v @ [m] else v)) G"
proof (induction G)
  case Nil
  then show ?case by simp
next
  case (Cons e G)
  obtain k v where e: "e = (k, v)" by (cases e)
  show ?case
  proof (cases "k = line")
    case True
    with Cons.prems e have "line \<notin> fst ` set G" by auto
    then have "map (\<lambda>(l, v). (l, if l = line then v @ [m] else v)) G = G"
      by (intro map_idI) force
    with True e show ?thesis by simp
  next
    case False
    with Cons e show ?thesis by auto
  qed
qed

lemma groupPush_refines:
  assumes "groupInv g st" "groupPush (g, st) r = (g', st')"
  shows "absGroups st' g' = mapPush (startLineNumber (objects st r)) (objects st r) (absGroups st g) \<and>
         groupInv g' st' \<and> objects st' = objects st \<and> nextArray st \<le> nextArray st'"
proof (cases "map_of g (startLineNumber (objects st r))")
  case None
  let ?line = "startLineNumber (objects st r)"
  let ?b = "nextArray st"
  from None have absent: "?line \<notin> fst ` set g" by (simp add: map_of_eq_None_iff)
  from None assms(2) have g': "g' = g @ [(?line, ?b)]"
    and st': "st' = pushArray ?b [r] (snd (allocArray [] st))"
    by (auto simp: groupPush_def Let_def allocArray_def split: prod.splits)
  have fresh: "\<forall>b \<in> snd ` set g. b \<noteq> ?b" using assms(1) by (auto simp: groupInv_def)
  have same: "\<And>l b. (l, b) \<in> set g \<Longrightarrow> contents st' b = contents st b"
    using fresh by (force simp: st' contents_def pushArray_def writeArray_def allocArray_def)
  have new: "contents st' ?b = [objects st r]"
    by (simp add: st' contents_def pushArray_def writeArray_def allocArray_def)
  have "absGroups st' g' = absGroups st g @ [(?line, [objects st r])]"
    using same new by (auto simp: absGroups_def g')
  moreover have "?line \<notin> fst ` set (absGroups st g)"
    using absent by (force simp: absGroups_def)
  moreover have "groupInv g' st'"
    using assms(1) absent fresh
    by (auto simp: groupInv_def g' st' pushArray_def writeArray_def allocArray_def less_Suc_eq)
  moreover have "objects st' = objects st" "nextArray st \<le> nextArray st'"
    by (simp_all add: st' pushArray_def writeArray_def allocArray_def)
  ultimately show ?thesis by (simp add: mapPush_absent)
next
  case (Some b)
  let ?line = "startLineNumber (objects st r)"
  from Some assms(2) have g': "g' = g" and st': "st' = pushArray b [r] st"
    by (auto simp: groupPush_def Let_def)
  from Some have mem: "(?line, b) \<in> set g" by (rule map_of_SomeD)
  have d1: "distinct (map fst g)" and d2: "distinct (map snd g)"
    using assms(1) by (simp_all add: groupInv_def)
  have iff: "\<And>l b'. (l, b') \<in> set g \<Longrightarrow> (b' = b) = (l = ?line)"
  proof -
    fix l b'
    assume lb: "(l, b') \<in> set g"
    have "inj_on fst (set g)" "inj_on snd (set g)"
      using d1 d2 by (simp_all add: distinct_map)
    with lb mem show "(b' = b) = (l = ?line)"
      by (metis fst_conv snd_conv inj_on_eq_iff)
  qed
  have c: "\<And>b'. contents st' b' = (if b' = b then contents st b @ [objects st r] else contents st b')"
    by (simp add: st' contents_def pushArray_def writeArray_def)
  have "absGroups st' g' =
        map (\<lambda>(l, v). (l, if l = ?line then v @ [objects st r] else v)) (absGroups st g)"
    unfolding absGroups_def g' map_map
  proof (rule map_cong [OF refl])
    fix e
    assume e: "e \<in> set g"
    obtain l b' where lb: "e = (l, b')" by (cases e)
    with e iff [of l b'] c [of b']
    show "(\<lambda>(l, b). (l, contents st' b)) e =
          ((\<lambda>(l, v). (l, if l = ?line then v @ [objects st r] else v)) \<circ>
           (\<lambda>(l, b). (l, contents st b))) e"
      by (cases "b' = b") simp_all
  qed
  moreover have "?line \<in> fst ` set (absGroups st g)"
    using mem by (force simp: absGroups_def)
  moreover have "distinct (map fst (absGroups st g))"
    using d1 by (simp add: absGroups_def comp_def case_prod_unfold)
  moreover have "groupInv g' st'"
    using assms(1) by (simp add: groupInv_def g' st' pushArray_def writeArray_def)
  moreover have "objects st' = objects st" "nextArray st \<le> nextArray st'"
    by (simp_all add: st' pushArray_def writeArray_def)
  ultimately show ?thesis by (simp add: mapPush_present)
qed

lemma foldl_groupPush_refines:
  assumes "groupInv g st" "foldl groupPush (g, st) rs = (g', st')"
  shows "absGroups st' g' =
           foldl (\<lambda>grouped marker. mapPush (startLineNumber marker) marker grouped)
                 (absGroups st g) (map (objects st) rs) \<and>
         groupInv g' st' \<and> objects st' = objects st \<and> nextArray st \<le> nextArray st'"
  using assms
proof (induction rs arbitrary: g st)
  case Nil
  then show ?case by simp
next
  case (Cons r rs)
  obtain g1 st1 where gp: "groupPush (g, st) r = (g1, st1)" by (cases "groupPush (g, st) r")
  note step = groupPush_refines [OF Cons.prems(1) gp]
  from Cons.prems(2) gp have "foldl groupPush (g1, st1) rs = (g', st')" by simp
  from Cons.IH [OF conjunct1 [OF conjunct2 [OF step]] this] step
  show ?case by simp
qed

lemma groupMarkersByLine_store_refines:
  assumes "groupMarkersByLine_store a st = (g, st')"
  shows "absGroups st' g = groupMarkersByLine (contents st a) \<and> groupInv g st' \<and>
         objects st' = objects st \<and> nextArray st \<le> nextArray st'"
proof -
  have "groupInv [] st" by (simp add: groupInv_def)
  moreover have "foldl groupPush ([], st) (arrays st a) = (g, st')"
    using assms by (simp add: groupMarkersByLine_store_def)
  ultimately have r: "absGroups st' g =
           foldl (\<lambda>grouped marker. mapPush (startLineNumber marker) marker grouped)
                 (absGroups st []) (map (objects st) (arrays st a)) \<and>
         groupInv g st' \<and> objects st' = objects st \<and> nextArray st \<le> nextArray st'"
    by (rule foldl_groupPush_refines)
  have "absGroups st [] = []" by (simp add: absGroups_def)
  with r show ?thesis by (simp add: groupMarkersByLine_def contents_def)
qed

lemma pushLimited_effect:
  assumes "f < nextArray st"
  shows "arrays (pushLimited n f st e) f = arrays st f @ take n (arrays st (snd e)) \<and>
         (\<forall>a. a < nextArray st \<and> a \<noteq> f \<longrightarrow> arrays (pushLimited n f st e) a = arrays st a) \<and>
         objects (pushLimited n f st e) = objects st \<and>
         nextArray st \<le> nextArray (pushLimited n f st e)"
  using assms
  by (auto simp: pushLimited_def sliceArray_def allocArray_def pushArray_def writeArray_def)

lemma foldl_pushLimited_effect:
  assumes "f < nextArray st" "\<forall>b \<in> snd ` set g. b < nextArray st \<and> b \<noteq> f"
  shows "arrays (foldl (pushLimited n f) st g) f
           = arrays st f @ concat (map (\<lambda>e. take n (arrays st (snd e))) g) \<and>
         objects (foldl (pushLimited n f) st g) = objects st"
  using assms
proof (induction g arbitrary: st)
  case Nil
  then show ?case by simp
next
  case (Cons e g)
  let ?st1 = "pushLimited n f st e"
  note eff = pushLimited_effect [OF Cons.prems(1), of n e]
  from eff Cons.prems have f1: "f < nextArray ?st1" by linarith
  have same: "\<forall>b \<in> snd ` set g. arrays ?st1 b = arrays st b"
    using eff Cons.prems(2) by auto
  have bnd: "\<forall>b \<in> snd ` set g. b < nextArray ?st1 \<and> b \<noteq> f"
    using eff Cons.prems(2) by fastforce
  have "map (\<lambda>e. take n (arrays ?st1 (snd e))) g = map (\<lambda>e. take n (arrays st (snd e))) g"
    using same by (intro map_cong) auto
  with Cons.IH [OF f1 bnd] eff show ?case by simp
qed

lemma map_filter_objects:
  "map obj (filter (\<lambda>r. p (obj r)) xs) = filter p (map obj xs)"
  by (induction xs) simp_all

lemma filterArray_contents:
  assumes "filterArray p a st = (b, st')"
  shows "contents st' b = filter p (contents st a)"
  using assms map_filter_objects [of "objects st" p "arrays st a"]
  by (auto simp: filterArray_def allocArray_def contents_def)

text \<open>
  The filtering pass on the store computes what filterMarkers computes on lists.
\<close>

theorem filterMarkers_store_refines:
  assumes "filterMarkers_store cfg position a st = (f, st')"
  shows "contents st' f = filterMarkers cfg position (contents st a)"
proof -
  let ?allowed = "\<lambda>marker. severity marker \<in> set (severityFilter cfg)"
  obtain f0 st0 where s0: "spreadArray a st = (f0, st0)" by (cases "spreadArray a st")
  obtain f1 st1 where s1: "filterArray ?allowed f0 st0 = (f1, st1)"
    by (cases "filterArray ?allowed f0 st0")
  define st2 where "st2 = sortArray compareMarkers f1 st1"
  define r3 where "r3 =
            (if followCursor cfg = ActiveLine then
               (case position of
                  None \<Rightarrow> (f1, st2)
                | Some currentLine \<Rightarrow>
                    (if currentLine \<noteq> 0
                     then filterArray (\<lambda>marker. startLineNumber marker = currentLine) f1 st2
                     else (f1, st2)))
             else (f1, st2))"
  obtain f3 st3 where s3: "r3 = (f3, st3)" by (cases r3)
  have c0: "contents st0 f0 = contents st a"
    using s0 by (auto simp: spreadArray_def allocArray_def contents_def)
  have c1: "contents st1 f1 = filter ?allowed (contents st a)"
    using filterArray_contents [OF s1] c0 by simp
  have c2: "contents st2 f1 = sortMarkers (filter ?allowed (contents st a))"
    using c1 by (simp add: st2_def sortArray_def writeArray_def contents_def sortMarkers_def
                   map_arraySort)
  have c3: "contents st3 f3 = beforeCap cfg position (contents st a)"
  proof (cases "\<exists>c. followCursor cfg = ActiveLine \<and> position = Some c \<and> c \<noteq> 0")
    case True
    then obtain c where c: "followCursor cfg = ActiveLine" "position = Some c" "c \<noteq> 0" by blast
    with s3 have "filterArray (\<lambda>marker. startLineNumber marker = c) f1 st2 = (f3, st3)"
      by (simp add: r3_def)
    then have "contents st3 f3 = filter (onLine c) (contents st2 f1)"
      by (rule filterArray_contents)
    with c c2 show ?thesis by (simp add: beforeCap_def)
  next
    case False
    with s3 have "f3 = f1" "st3 = st2"
      by (cases position; auto simp: r3_def split: if_splits)+
    with False c2 show ?thesis by (cases position) (auto simp: beforeCap_def Let_def)
  qed
  have unfold: "filterMarkers_store cfg position a st =
     (if maxMarkersPerLine cfg > 0
      then (let (lineGroups, st) = groupMarkersByLine_store f3 st3;
                (filtered, st) = allocArray [] st
            in (filtered, foldl (pushLimited (nat (maxMarkersPerLine cfg)) filtered) st lineGroups))
      else (f3, st3))"
    using s0 s1 s3 unfolding filterMarkers_store_def r3_def st2_def by (simp add: Let_def)
  show ?thesis
  proof (cases "maxMarkersPerLine cfg > 0")
    case False
    with unfold assms c3 show ?thesis by (simp add: filterMarkers_beforeCap)
  next
    case True
    let ?n = "nat (maxMarkersPerLine cfg)"
    obtain g st4 where s4: "groupMarkersByLine_store f3 st3 = (g, st4)"
      by (cases "groupMarkersByLine_store f3 st3")
    define f5 where "f5 = nextArray st4"
    define st5 where "st5 = snd (allocArray [] st4)"
    have s5: "allocArray [] st4 = (f5, st5)" by (simp add: f5_def st5_def allocArray_def)
    note gr = groupMarkersByLine_store_refines [OF s4]
    from gr have inv: "\<forall>b \<in> snd ` set g. b < nextArray st4" by (simp add: groupInv_def)
    have res: "f = f5" "st' = foldl (pushLimited ?n f5) st5 g"
      using True unfold assms s4 s5 by simp_all
    have f5': "f5 < nextArray st5" by (simp add: f5_def st5_def allocArray_def)
    have bnd: "\<forall>b \<in> snd ` set g. b < nextArray st5 \<and> b \<noteq> f5"
      using inv by (auto simp: f5_def st5_def allocArray_def)
    note eff = foldl_pushLimited_effect [OF f5' bnd, of ?n]
    have a5: "arrays st5 f5 = []" by (simp add: f5_def st5_def allocArray_def)
    have same: "\<And>e. e \<in> set g \<Longrightarrow> arrays st5 (snd e) = arrays st4 (snd e)"
      using inv by (auto simp: f5_def st5_def allocArray_def)
    have o5: "objects st5 = objects st4" by (simp add: st5_def allocArray_def)
    have "contents st' f = map (objects st4) (concat (map (\<lambda>e. take ?n (arrays st5 (snd e))) g))"
      using eff a5 o5 by (simp add: res contents_def)
    also have "\<dots> = concat (map (\<lambda>e. take ?n (contents st4 (snd e))) g)"
      using same by (simp add: map_concat comp_def contents_def take_map cong: map_cong)
    also have "\<dots> = concat (map (\<lambda>(line, lineMarkers). take ?n lineMarkers) (absGroups st4 g))"
      by (simp add: absGroups_def comp_def case_prod_unfold)
    also have "\<dots> = capLines ?n (contents st3 f3)"
      using gr by (simp add: capLines_def)
    finally show ?thesis using True c3 by (simp add: filterMarkers_beforeCap)
  qed
qed

theorem pipeline_leaves_snapshot_witness:
  "(0::nat) < nextArray exampleStore \<and>
   arrays (snd (pipeline_store DEFAULT_OPTIONS None 0 exampleStore)) 0 = [0, 1] \<and>
   map message (contents exampleStore 0) = [''w'', ''e''] \<and>
   map message (contents (snd (filterMarkers_store DEFAULT_OPTIONS None 0 exampleStore))
                         (fst (filterMarkers_store DEFAULT_OPTIONS None 0 exampleStore)))
     = [''e'', ''w'']"
proof -
  have "contents (snd (filterMarkers_store DEFAULT_OPTIONS None 0 exampleStore))
                 (fst (filterMarkers_store DEFAULT_OPTIONS None 0 exampleStore))
          = filterMarkers DEFAULT_OPTIONS None (contents exampleStore 0)"
    by (rule filterMarkers_store_refines) simp
  moreover have "contents exampleStore 0 = [mkMarker 2 4 ''w'', mkMarker 1 8 ''e'']"
    by (simp add: contents_def exampleStore_def)
  moreover have "map message (filterMarkers DEFAULT_OPTIONS None [mkMarker 2 4 ''w'', mkMarker 1 8 ''e''])
                   = [''e'', ''w'']"
    by (simp add: filterMarkers_def DEFAULT_OPTIONS_def sortMarkers_def arraySort_def
          compareMarkers_def groupMarkersByLine_def mkMarker_def)
  ultimately show ?thesis
    using pipeline_leaves_snapshot [of 0 exampleStore DEFAULT_OPTIONS None]
    by (simp add: exampleStore_def mkMarker_def)
qed

end
